theory Spec2Isabelle
  imports Complex_Main "HOL-Library.Monad_Syntax" "HOL-Library.Code_Target_Numeral"
    "HOL-Library.Log_Nat"
begin

section \<open>The axon spiking-network engine: a shallow embedding\<close>

text \<open>
  The Go sources under \<^verbatim>\<open>src/axon\<close> are translated function by function.
  Conventions of the embedding:
  \<^item> a Go \<^verbatim>\<open>float32\<close> is a \<^typ>\<open>real\<close>, with no infinity and no NaN.  Arithmetic
    is exact, without rounding, except in the refractory branch of \<^verbatim>\<open>VmFmG\<close> for
    the soma, where the question is whether a sum is exactly a given \<^verbatim>\<open>float32\<close>:
    there every operation is rounded to the nearest \<^verbatim>\<open>float32\<close> (the function
    \<open>rnd32\<close> below).
    Every other statement about a \<^verbatim>\<open>float32\<close> value is a statement about the
    idealisation;
  \<^item> a \<^verbatim>\<open>slbool.Bool\<close> is a \<^typ>\<open>bool\<close> (\<^verbatim>\<open>IsTrue\<close> is the value, \<^verbatim>\<open>IsFalse\<close> its negation);
  \<^item> a \<^verbatim>\<open>uint32\<close> is a \<^typ>\<open>nat\<close>, and the result of \<^verbatim>\<open>uint32\<close> arithmetic is
    reduced modulo \<open>2 ^ 32\<close> (the function \<open>u32\<close> below); a Go \<^verbatim>\<open>int\<close> is an
    \<^typ>\<open>int\<close>;
  \<^item> a method that mutates its receiver returns the updated record;
  \<^item> an index or a slice bound out of range is a run-time panic in Go: a function that
    can panic has an option type, and \<open>None\<close> is the panic.
\<close>

definition u32 :: "nat \<Rightarrow> nat" where
  "u32 n = n mod 2 ^ 32"

text \<open>\<^verbatim>\<open>xs[i]\<close> for a Go \<^verbatim>\<open>int\<close> index, and for an index that is a \<^verbatim>\<open>uint32\<close>.\<close>

definition ix :: "'a list \<Rightarrow> int \<Rightarrow> 'a option" where
  "ix xs i = (if 0 \<le> i \<and> i < int (length xs) then Some (xs ! nat i) else None)"

definition ixn :: "'a list \<Rightarrow> nat \<Rightarrow> 'a option" where
  "ixn xs i = (if i < length xs then Some (xs ! i) else None)"

text \<open>\<^verbatim>\<open>xs[lo:hi]\<close> of a slice whose capacity is its length.\<close>

definition slice :: "'a list \<Rightarrow> nat \<Rightarrow> nat \<Rightarrow> 'a list option" where
  "slice xs lo hi = (if lo \<le> hi \<and> hi \<le> length xs then Some (take (hi - lo) (drop lo xs)) else None)"

text \<open>
  The rounding of IEEE 754 binary32 arithmetic, which Go's \<^verbatim>\<open>float32\<close> operations
  perform: to the nearest number with a significand of 24 bits, a tie going to the even
  significand; below \<open>2 ^ - 126\<close> the spacing stays \<open>2 ^ - 149\<close>.  A result beyond the
  largest \<^verbatim>\<open>float32\<close> (an infinity) is not modelled.  \<open>lg2 x\<close> is the exponent of
  \<open>x > 0\<close>, the integer \<open>e\<close> with \<open>2 ^ e \<le> x < 2 ^ (e + 1)\<close>; \<open>rne\<close> rounds to the
  nearest integer, a tie to the even one.
\<close>

definition lg2 :: "real \<Rightarrow> int" where
  "lg2 x = (if x \<ge> 1 then int (floorlog 2 (nat \<lfloor>x\<rfloor>)) - 1
            else - int (floorlog 2 (nat (\<lceil>1 / x\<rceil> - 1))))"

definition rne :: "real \<Rightarrow> int" where
  "rne q = (let f = \<lfloor>q\<rfloor>; d = q - of_int f
            in if d < 1/2 then f else if d > 1/2 then f + 1 else if even f then f else f + 1)"

definition pow2 :: "int \<Rightarrow> real" where
  "pow2 e = (if e \<ge> 0 then 2 ^ nat e else 1 / 2 ^ nat (- e))"

definition rnd32 :: "real \<Rightarrow> real" where
  "rnd32 x = (if x = 0 then 0
              else (let u = pow2 (max (lg2 \<bar>x\<bar>) (-126) - 23) in of_int (rne (x / u)) * u))"

subsection \<open>act.go: parameters\<close>

record SpikeParams =
  Thr :: real
  VmR :: real
  Tr :: int
  RTau :: real
  Exp :: bool
  ExpSlope :: real
  ExpThr :: real
  RDt :: real

record DendParams =
  GbarExp :: real
  GbarR :: real

record DtParams =
  VmTau :: real
  VmSteps :: int
  VmDt :: real
  VmDendDt :: real
  DtStep :: real
  GeDt :: real
  GiDt :: real

text \<open>\<^verbatim>\<open>chans.Chans\<close>: one value per channel (E, L, I, K).\<close>

record Chans =
  chE :: real
  chL :: real
  chI :: real
  chK :: real

record SpikeNoiseParams =
  Noise_On :: bool
  Noise_Ge :: real
  Noise_Gi :: real
  GeExpInt :: real
  GiExpInt :: real

record ClampParams =
  Clamp_Ge :: real
  Clamp_Add :: bool

record AttnParams =
  Attn_On :: bool
  Attn_Min :: real

text \<open>
  \<^verbatim>\<open>minmax.F32\<close> (package etable/minmax, outside the repository): a range with
  its \<^verbatim>\<open>ClipVal\<close>, which has the shape of \<^verbatim>\<open>PopCodeParams.ClipVal\<close>
  of act.go: below Min gives Min, above Max gives Max.
\<close>

record F32 =
  Range_Min :: real
  Range_Max :: real

record ActParams =
  Spike :: SpikeParams
  Dend :: DendParams
  Dt :: DtParams
  Gbar :: Chans
  Erev :: Chans
  Clamp :: ClampParams
  Noise :: SpikeNoiseParams
  VmRange :: F32
  Attn :: AttnParams

subsection \<open>The fields of \<^verbatim>\<open>Neuron\<close> that the conductance and membrane updates touch\<close>

text \<open>\<^verbatim>\<open>HasExt\<close> is \<^verbatim>\<open>nrn.HasFlag(NeuronHasExt)\<close>; \<^verbatim>\<open>NAttn\<close> is \<^verbatim>\<open>nrn.Attn\<close>.\<close>

record Neuron =
  HasExt :: bool
  Ext :: real
  GeExt :: real
  NAttn :: real
  Ge :: real
  Gi :: real
  Gk :: real
  GeNoiseP :: real
  GeNoise :: real
  GiNoiseP :: real
  GiNoise :: real
  Vm :: real
  VmDend :: real
  Inet :: real
  ISI :: real
  SSGiDend :: real

subsection \<open>act.go: conductances\<close>

definition GeSynFmRaw :: "DtParams \<Rightarrow> real \<Rightarrow> real \<Rightarrow> real" where
  "GeSynFmRaw dp geSyn geRaw = geSyn + geRaw - GeDt dp * geSyn"

definition GiSynFmRaw :: "DtParams \<Rightarrow> real \<Rightarrow> real \<Rightarrow> real" where
  "GiSynFmRaw dp giSyn giRaw = giSyn + giRaw - GiDt dp * giSyn"

text \<open>
  \<^verbatim>\<open>PGe\<close> / \<^verbatim>\<open>PGi\<close>: the uniform random number of \<^verbatim>\<open>GetRandomNumber\<close>
  is the argument \<open>r\<close>; the result is the conductance of the noise spike and the
  updated probability \<^verbatim>\<open>*p\<close>.
\<close>

definition PGe :: "SpikeNoiseParams \<Rightarrow> real \<Rightarrow> real \<Rightarrow> real \<times> real" where
  "PGe an r p = (let p1 = p * r in if p1 \<le> GeExpInt an then (Noise_Ge an, 1) else (0, p1))"

definition PGi :: "SpikeNoiseParams \<Rightarrow> real \<Rightarrow> real \<Rightarrow> real \<times> real" where
  "PGi an r p = (let p1 = p * r in if p1 \<le> GiExpInt an then (Noise_Gi an, 1) else (0, p1))"

definition ModVal :: "AttnParams \<Rightarrow> real \<Rightarrow> real \<Rightarrow> real" where
  "ModVal ap v attn =
     (let v1 = (if v < 0 then 0 else v)
      in if \<not> Attn_On ap then v1 else v1 * (Attn_Min ap + (1 - Attn_Min ap) * attn))"

text \<open>\<^verbatim>\<open>GeNoise\<close> returns at once when the noise is off or its conductance is 0.\<close>

definition noise_ge_active :: "ActParams \<Rightarrow> bool" where
  "noise_ge_active ac = (Noise_On (Noise ac) \<and> Noise_Ge (Noise ac) \<noteq> 0)"

definition noise_gi_active :: "ActParams \<Rightarrow> bool" where
  "noise_gi_active ac = (Noise_On (Noise ac) \<and> Noise_Gi (Noise ac) \<noteq> 0)"

definition GeNoiseUpd :: "ActParams \<Rightarrow> real \<Rightarrow> Neuron \<Rightarrow> Neuron" where
  "GeNoiseUpd ac r nrn =
     (if noise_ge_active ac then
        (let (ge, p) = PGe (Noise ac) r (GeNoiseP nrn);
             gn = GeSynFmRaw (Dt ac) (GeNoise nrn) ge
         in nrn\<lparr>GeNoiseP := p, GeNoise := gn, Ge := Ge nrn + gn\<rparr>)
      else nrn)"

definition GiNoiseUpd :: "ActParams \<Rightarrow> real \<Rightarrow> Neuron \<Rightarrow> Neuron" where
  "GiNoiseUpd ac r nrn =
     (if noise_gi_active ac then
        (let (gi, p) = PGi (Noise ac) r (GiNoiseP nrn)
         in nrn\<lparr>GiNoiseP := p, GiNoise := GiSynFmRaw (Dt ac) (GiNoise nrn) gi\<rparr>)
      else nrn)"

text \<open>
  \<^verbatim>\<open>GeFmSyn(ctx, ni, nrn, geSyn, geExt)\<close>: the external clamp, the attentional
  modulation, the clamp of \<^verbatim>\<open>nrn.Ge\<close> at 0, and then the noise.
\<close>

definition GeFmSyn :: "ActParams \<Rightarrow> real \<Rightarrow> Neuron \<Rightarrow> real \<Rightarrow> real \<Rightarrow> Neuron" where
  "GeFmSyn ac r nrn geSyn geExt =
     (let n0 = nrn\<lparr>GeExt := 0\<rparr>;
          add = (Clamp_Add (Clamp ac) \<and> HasExt n0);
          n1 = (if add then n0\<lparr>GeExt := Ext n0 * Clamp_Ge (Clamp ac)\<rparr> else n0);
          g1 = (if add then geSyn + GeExt n1 else geSyn);
          g2 = ModVal (Attn ac) g1 (NAttn n1);
          ovr = (\<not> Clamp_Add (Clamp ac) \<and> HasExt n1);
          g3 = (if ovr then Ext n1 * Clamp_Ge (Clamp ac) else g2);
          n2 = (if ovr then n1\<lparr>GeExt := g3\<rparr> else n1);
          x = (if ovr then 0 else geExt);
          n3 = n2\<lparr>Ge := g3 + x\<rparr>;
          n4 = (if Ge n3 < 0 then n3\<lparr>Ge := 0\<rparr> else n3)
      in GeNoiseUpd ac r n4)"

text \<open>\<^verbatim>\<open>GiFmSyn\<close> returns the clamped conductance; the neuron carries the noise update.\<close>

definition GiFmSyn :: "ActParams \<Rightarrow> real \<Rightarrow> Neuron \<Rightarrow> real \<Rightarrow> Neuron \<times> real" where
  "GiFmSyn ac r nrn giSyn = (GiNoiseUpd ac r nrn, if giSyn < 0 then 0 else giSyn)"

subsection \<open>act.go: membrane potential\<close>

text \<open>
  Modelled from the spec: \<^verbatim>\<open>minmax.F32.ClipVal\<close>, of the package etable/minmax that
  act.go imports, is not among the sources; the spec says the potential is
  ``clipped to a valid voltage range''.  A value below the minimum becomes the minimum,
  a value above the maximum becomes the maximum, any other value is returned as it is.
\<close>

definition ClipVal :: "F32 \<Rightarrow> real \<Rightarrow> real" where
  "ClipVal mr v = (if v < Range_Min mr then Range_Min mr
                   else if v > Range_Max mr then Range_Max mr else v)"

definition InetFmG :: "ActParams \<Rightarrow> real \<Rightarrow> real \<Rightarrow> real \<Rightarrow> real \<Rightarrow> real \<Rightarrow> real" where
  "InetFmG ac vm ge gl gi gk =
     (let inet = ge * (chE (Erev ac) - vm) + gl * chL (Gbar ac) * (chL (Erev ac) - vm)
                 + gi * (chI (Erev ac) - vm) + gk * (chK (Erev ac) - vm)
      in if inet > VmTau (Dt ac) then VmTau (Dt ac)
         else if inet < - VmTau (Dt ac) then - VmTau (Dt ac) else inet)"

definition VmFmInet :: "ActParams \<Rightarrow> real \<Rightarrow> real \<Rightarrow> real \<Rightarrow> real" where
  "VmFmInet ac vm dt inet = ClipVal (VmRange ac) (vm + dt * inet)"

text \<open>
  One pass of the loop body of \<^verbatim>\<open>VmInteg\<close> on the pair \<^verbatim>\<open>(*nvm, *inet)\<close>,
  and the loop itself: \<^verbatim>\<open>for i := int32(0); i < ac.Dt.VmSteps; i++\<close> runs
  \<open>nat VmSteps\<close> times (not at all when \<^verbatim>\<open>VmSteps\<close> is 0 or negative).
\<close>

definition VmStep :: "ActParams \<Rightarrow> real \<Rightarrow> real \<Rightarrow> real \<Rightarrow> real \<Rightarrow> real \<Rightarrow> real \<times> real \<Rightarrow> real \<times> real" where
  "VmStep ac dt ge gl gi gk s =
     (let inet = InetFmG ac (fst s) ge gl gi gk in (VmFmInet ac (fst s) dt inet, inet))"

fun VmLoop :: "ActParams \<Rightarrow> nat \<Rightarrow> real \<Rightarrow> real \<Rightarrow> real \<Rightarrow> real \<Rightarrow> real \<Rightarrow> real \<times> real \<Rightarrow> real \<times> real" where
  "VmLoop ac 0 dt ge gl gi gk s = s"
| "VmLoop ac (Suc n) dt ge gl gi gk s = VmLoop ac n dt ge gl gi gk (VmStep ac dt ge gl gi gk s)"

text \<open>
  \<^verbatim>\<open>VmInteg(vm, dt, ge, gl, gi, gk, nvm, inet)\<close>: the result is the pair of the two
  out-parameters; \<open>inet0\<close> is what \<^verbatim>\<open>*inet\<close> holds on entry (it is returned
  when the loop does not run).
\<close>

definition VmInteg :: "ActParams \<Rightarrow> real \<Rightarrow> real \<Rightarrow> real \<Rightarrow> real \<Rightarrow> real \<Rightarrow> real \<Rightarrow> real \<Rightarrow> real \<times> real" where
  "VmInteg ac vm dt ge gl gi gk inet0 =
     VmLoop ac (nat (VmSteps (Dt ac))) (dt * DtStep (Dt ac)) ge gl gi gk (vm, inet0)"

text \<open>
  The guard of \<^verbatim>\<open>VmFmG\<close> that clears \<^verbatim>\<open>updtVm\<close>: the neuron is inside the
  refractory window.
\<close>

definition refractory :: "ActParams \<Rightarrow> Neuron \<Rightarrow> bool" where
  "refractory ac nrn =
     (Tr (Spike ac) > 0 \<and> ISI nrn \<ge> 0 \<and> ISI nrn < real_of_int (Tr (Spike ac)))"

text \<open>Go's conversion \<^verbatim>\<open>int32(x)\<close> of a float: truncation towards zero.\<close>

definition trunc_int :: "real \<Rightarrow> int" where
  "trunc_int x = (if x \<ge> 0 then \<lfloor>x\<rfloor> else \<lceil>x\<rceil>)"

text \<open>The exponential spike current of the AdEx model; \<open>fexp\<close> is \<^verbatim>\<open>mat32.FastExp\<close>.\<close>

definition ExpCurrent :: "(real \<Rightarrow> real) \<Rightarrow> ActParams \<Rightarrow> real \<Rightarrow> real \<Rightarrow> real" where
  "ExpCurrent fexp ac nvm vm =
     (let exVm = (1/2) * (nvm + vm);
          expi = chL (Gbar ac) * ExpSlope (Spike ac)
                 * fexp ((exVm - Thr (Spike ac)) / ExpSlope (Spike ac))
      in if expi > VmTau (Dt ac) then VmTau (Dt ac) else expi)"

text \<open>
  The decrement \<^verbatim>\<open>dvm\<close> of the refractory branch, in \<^verbatim>\<open>float32\<close> arithmetic: the
  difference is rounded, and so is its product with \<^verbatim>\<open>RDt\<close>.
\<close>

definition RefractDvm :: "ActParams \<Rightarrow> Neuron \<Rightarrow> real" where
  "RefractDvm ac nrn =
     (if trunc_int (ISI nrn) = Tr (Spike ac) - 1 then rnd32 (VmR (Spike ac) - Vm nrn)
      else rnd32 (RDt (Spike ac) * rnd32 (VmR (Spike ac) - Vm nrn)))"

text \<open>
  The first half of \<^verbatim>\<open>VmFmG\<close>, on the soma: the result is the neuron with
  \<^verbatim>\<open>Vm\<close> and \<^verbatim>\<open>Inet\<close> set, and the locals \<^verbatim>\<open>inet\<close> and \<^verbatim>\<open>expi\<close>
  as the second half finds them.  In the refractory branch the sum
  \<^verbatim>\<open>nrn.Vm + dvm\<close> and the product \<^verbatim>\<open>dvm * ac.Dt.VmTau\<close> are rounded.
\<close>

definition VmSoma :: "(real \<Rightarrow> real) \<Rightarrow> ActParams \<Rightarrow> Neuron \<Rightarrow> Neuron \<times> real \<times> real" where
  "VmSoma fexp ac nrn =
     (let ge = Ge nrn * chE (Gbar ac);
          gi = Gi nrn * chI (Gbar ac);
          gk = Gk nrn * chK (Gbar ac)
      in if \<not> refractory ac nrn then
           (let (nvm, inet) = VmInteg ac (Vm nrn) (VmDt (Dt ac)) ge 1 gi gk 0
            in if Exp (Spike ac) then
                 (let expi = ExpCurrent fexp ac nvm (Vm nrn);
                      inet1 = inet + expi;
                      nvm1 = VmFmInet ac nvm (VmDt (Dt ac)) expi
                  in (nrn\<lparr>Vm := nvm1, Inet := inet1\<rparr>, inet1, expi))
               else (nrn\<lparr>Vm := nvm, Inet := inet\<rparr>, inet, 0))
         else
           (let dvm = RefractDvm ac nrn
            in (nrn\<lparr>Vm := rnd32 (Vm nrn + dvm), Inet := rnd32 (dvm * VmTau (Dt ac))\<rparr>, 0, 0)))"

definition VmFmG :: "(real \<Rightarrow> real) \<Rightarrow> ActParams \<Rightarrow> Neuron \<Rightarrow> Neuron" where
  "VmFmG fexp ac nrn =
     (let updtVm = (\<not> refractory ac nrn);
          ge = Ge nrn * chE (Gbar ac);
          gi = Gi nrn * chI (Gbar ac);
          gk = Gk nrn * chK (Gbar ac);
          (n1, inet, expi) = VmSoma fexp ac nrn;
          glEff = (if updtVm then 1 else 1 + GbarR (Dend ac));
          giEff = gi + chI (Gbar ac) * SSGiDend nrn;
          (nvm, inet2) = VmInteg ac (VmDend nrn) (VmDendDt (Dt ac)) ge glEff giEff gk inet;
          nvm2 = (if updtVm then VmFmInet ac nvm (VmDendDt (Dt ac)) (GbarExp (Dend ac) * expi)
                  else nvm)
      in n1\<lparr>VmDend := nvm2\<rparr>)"

text \<open>Test data: the defaults of the parameter structs, and a resting neuron.\<close>

definition dflt_ac :: ActParams where
  "dflt_ac = \<lparr>
     Spike = \<lparr>Thr = 1/2, VmR = 3/10, Tr = 3, RTau = 5/3, Exp = True, ExpSlope = 1/50,
              ExpThr = 9/10, RDt = 3/5\<rparr>,
     Dend = \<lparr>GbarExp = 1/5, GbarR = 3\<rparr>,
     Dt = \<lparr>VmTau = 281/100, VmSteps = 2, VmDt = 100/281, VmDendDt = 1/5, DtStep = 1/2,
           GeDt = 1/5, GiDt = 1/7\<rparr>,
     Gbar = \<lparr>chE = 1, chL = 1/5, chI = 1, chK = 1\<rparr>,
     Erev = \<lparr>chE = 1, chL = 3/10, chI = 1/10, chK = 1/10\<rparr>,
     Clamp = \<lparr>Clamp_Ge = 4/5, Clamp_Add = False\<rparr>,
     Noise = \<lparr>Noise_On = False, Noise_Ge = 1/1000, Noise_Gi = 1/1000, GeExpInt = 0,
              GiExpInt = 0\<rparr>,
     VmRange = \<lparr>Range_Min = 1/10, Range_Max = 1\<rparr>,
     Attn = \<lparr>Attn_On = True, Attn_Min = 4/5\<rparr>\<rparr>"

definition rest_nrn :: Neuron where
  "rest_nrn = \<lparr>HasExt = False, Ext = 0, GeExt = 0, NAttn = 1, Ge = 0, Gi = 0, Gk = 0,
     GeNoiseP = 1, GeNoise = 0, GiNoiseP = 1, GiNoise = 0, Vm = 3/10, VmDend = 3/10,
     Inet = 0, ISI = -1, SSGiDend = 0\<rparr>"

text \<open>The same parameters with the noise switched on and a negative noise conductance.\<close>

definition neg_noise_ac :: ActParams where
  "neg_noise_ac = dflt_ac\<lparr>Noise := \<lparr>Noise_On = True, Noise_Ge = -1, Noise_Gi = 1/1000,
     GeExpInt = 0, GiExpInt = 0\<rparr>\<rparr>"

text \<open>
  A reset potential of \<^verbatim>\<open>float32(0.001)\<close>, and a neuron with the potential 1 on the
  last cycle of the refractory period (\<^verbatim>\<open>Tr\<close> is 3).
\<close>

definition low_VmR_ac :: ActParams where
  "low_VmR_ac = dflt_ac\<lparr>Spike := (Spike dflt_ac)\<lparr>VmR := 8589935 / 8589934592\<rparr>\<rparr>"

definition spiked_nrn :: Neuron where
  "spiked_nrn = rest_nrn\<lparr>ISI := 2, Vm := 1\<rparr>"

subsection \<open>networkbase.go: Build\<close>

text \<open>
  How \<^verbatim>\<open>Build\<close> ends: a run-time panic (an index or a slice bound out of range, a
  nil pointer), \<^verbatim>\<open>log.Fatalf\<close>, which ends the process, or a \<^verbatim>\<open>return\<close> that hands
  back \<^verbatim>\<open>nil\<close> or an error with its message.
\<close>

datatype build_result = Panic | Fatal | Returned "string option"

definition MaxUint32 :: nat where
  "MaxUint32 = 4294967295"

definition newline :: char where
  "newline = CHR 0x0A"

text \<open>
  The model of \<^verbatim>\<open>Build\<close> keeps what decides how it ends: the lengths of the arrays
  that it makes, and of the layers and projections the fields that its counts, indices
  and slice bounds come from.  The values that it stores in the arrays, the class map,
  the thread configuration and the display layout take no part in that and are left out.
  A projection is one object that its receiving layer holds in \<^verbatim>\<open>RcvPrjns\<close> and its
  sending layer in \<^verbatim>\<open>SndPrjns\<close>: the projections are kept in a store, and a layer
  holds positions in the store.
\<close>

text \<open>
  Modelled from the spec: \<^verbatim>\<open>StartN\<close> and \<^verbatim>\<open>PrjnBase\<close> are declared in prjnbase.go,
  which is not among the sources; the spec has the topology compiled into ``flat arrays
  with per-layer/per-projection offsets'', and the fields are those that \<^verbatim>\<open>Build\<close>
  reads.  \<open>PB_Params\<close>: \<^verbatim>\<open>pj.Params\<close> is not nil; \<open>PB_Send\<close>: the position of the
  layer \<^verbatim>\<open>pj.Send\<close> in \<^verbatim>\<open>nt.Layers\<close>, \<open>None\<close> for nil; \<open>PB_Syns\<close> and
  \<open>PB_SynsCap\<close>: the length and the capacity of the slice \<^verbatim>\<open>pj.Syns\<close>; the other
  fields have the names of the source.
\<close>

record StartN =
  Start :: nat
  N :: nat

record PrjnBase =
  PB_Params :: bool
  PB_Send :: "nat option"
  PB_RecvConIdx :: "nat list"
  PB_RecvCon :: "StartN list"
  PB_SendCon :: "StartN list"
  PB_SendSynIdx :: "nat list"
  PB_Syns :: nat
  PB_SynsCap :: nat

text \<open>
  Modelled from the spec: the layer is declared in layer.go and layerbase.go, which are
  not among the sources; the spec has a layer with its shape and kind.  \<open>Lay_Off\<close> is
  \<^verbatim>\<open>ly.IsOff()\<close>, \<open>Lay_Len\<close> is \<^verbatim>\<open>ly.Shape().Len()\<close>, \<open>Lay_NumDims\<close> is
  \<^verbatim>\<open>ly.Shape().NumDims()\<close>, \<open>Lay_NSubPools\<close> is \<^verbatim>\<open>ly.NSubPools()\<close>, \<open>Lay_IsExt\<close>
  is \<^verbatim>\<open>ly.LayerType().IsExt()\<close>, \<open>Lay_Neurons\<close> is \<^verbatim>\<open>len(ly.Neurons)\<close>.  The
  accessors \<^verbatim>\<open>ly.RecvPrjns()\<close>, \<^verbatim>\<open>ly.SendPrjns()\<close> and \<^verbatim>\<open>ly.NRecvPrjns()\<close> give the
  fields \<^verbatim>\<open>RcvPrjns\<close> and \<^verbatim>\<open>SndPrjns\<close> and the length of the first.
\<close>

record BLayer =
  Lay_Off :: bool
  Lay_Len :: nat
  Lay_NumDims :: nat
  Lay_NSubPools :: nat
  Lay_IsExt :: bool
  Lay_RcvPrjns :: "nat list"
  Lay_SndPrjns :: "nat list"
  Lay_Neurons :: nat

record BNet =
  Net_Layers :: "BLayer list"
  Net_Prjns :: "PrjnBase list"

text \<open>
  The first loop over \<^verbatim>\<open>nt.Layers\<close>: the totals \<^verbatim>\<open>totPools\<close>, \<^verbatim>\<open>totNeurons\<close>,
  \<^verbatim>\<open>totExts\<close> and \<^verbatim>\<open>totPrjns\<close>, the lengths of \<^verbatim>\<open>nt.Pools\<close>, \<^verbatim>\<open>nt.Neurons\<close>,
  \<^verbatim>\<open>nt.Exts\<close> and \<^verbatim>\<open>nt.Prjns\<close>.  A layer that is off is skipped.
\<close>

record BTotals =
  totPools :: nat
  totNeurons :: nat
  totExts :: nat
  totPrjns :: nat

fun CountLayers :: "BLayer list \<Rightarrow> BTotals \<Rightarrow> BTotals" where
  "CountLayers [] t = t"
| "CountLayers (ly # ls) t =
     (if Lay_Off ly then CountLayers ls t
      else CountLayers ls
             (t\<lparr>totPools := totPools t + Lay_NSubPools ly,
                totNeurons := totNeurons t + Lay_Len ly,
                totExts := (if Lay_IsExt ly then totExts t + Lay_Len ly else totExts t),
                totPrjns := totPrjns t + length (Lay_RcvPrjns ly)\<rparr>))"

text \<open>
  The locals of the second loop: the network, the message \<^verbatim>\<open>emsg\<close>, and the counters.
\<close>

record BState =
  bnet :: BNet
  emsg :: string
  totSynapses :: nat
  totRecvCon :: nat
  totSendCon :: nat
  neurIdx :: nat
  prjnIdx :: nat
  sprjnIdx :: nat
  poolIdx :: nat
  extIdx :: nat

text \<open>
  The loop of the second loop over the receiving projections \<^verbatim>\<open>rprjns\<close> of a layer,
  which sets \<^verbatim>\<open>pj.Params = &nt.PrjnParams[pii]\<close>: \<open>pii\<close> is \<^verbatim>\<open>prjnIdx + pi\<close>,
  \<open>tot\<close> is the length of \<^verbatim>\<open>nt.PrjnParams\<close>.
\<close>

fun SetParams :: "nat \<Rightarrow> nat \<Rightarrow> nat list \<Rightarrow> PrjnBase list \<Rightarrow> PrjnBase list option" where
  "SetParams pii tot [] ps = Some ps"
| "SetParams pii tot (pj # pjs) ps =
     (if pii \<ge> tot then None
      else
        (case ixn ps pj of
           None \<Rightarrow> None
         | Some p \<Rightarrow> SetParams (Suc pii) tot pjs (ps[pj := p\<lparr>PB_Params := True\<rparr>])))"

text \<open>
  \<^verbatim>\<open>totSynapses += len(pj.RecvConIdx)\<close> over \<^verbatim>\<open>rprjns\<close>, after the build of the
  layer.
\<close>

fun CountSynapses :: "PrjnBase list \<Rightarrow> nat list \<Rightarrow> nat \<Rightarrow> nat option" where
  "CountSynapses ps [] tot = Some tot"
| "CountSynapses ps (pj # pjs) tot =
     (case ixn ps pj of
        None \<Rightarrow> None
      | Some p \<Rightarrow> CountSynapses ps pjs (tot + length (PB_RecvConIdx p)))"

text \<open>
  The body of the second loop for the layer at \<open>li\<close>.  \<open>lb\<close> is \<^verbatim>\<open>ly.Build()\<close>, a
  method of layer.go, which is not among the sources: \<open>lb net li\<close> is the network after
  the build of the layer at \<open>li\<close> and the error that it returns (its message, or \<open>None\<close>
  for \<^verbatim>\<open>nil\<close>).  The slices \<^verbatim>\<open>nt.Neurons[neurIdx : neurIdx+nn]\<close>,
  \<^verbatim>\<open>nt.Pools[poolIdx : poolIdx+np]\<close> and \<^verbatim>\<open>nt.Exts[extIdx : extIdx+nn]\<close> panic beyond
  the arrays; \<^verbatim>\<open>shp.Dim(2)\<close> and \<^verbatim>\<open>shp.Dim(3)\<close>, called when the shape has not two
  dimensions, index the dimensions of the shape (package etensor).
\<close>

definition BuildLayer :: "(BNet \<Rightarrow> nat \<Rightarrow> BNet \<times> string option) \<Rightarrow> BTotals \<Rightarrow> nat \<Rightarrow> BState
    \<Rightarrow> BState option" where
  "BuildLayer lb tt li s =
     (case ixn (Net_Layers (bnet s)) li of
        None \<Rightarrow> None
      | Some ly \<Rightarrow>
          if Lay_Off ly then Some s
          else
            (let nn = Lay_Len ly;
                 np = Lay_NSubPools ly + 1;
                 rprjns = Lay_RcvPrjns ly
             in if neurIdx s + nn > totNeurons tt then None
                else if poolIdx s + np > totPools tt then None
                else if Lay_NumDims ly \<noteq> 2 \<and> Lay_NumDims ly < 4 then None
                else if Lay_IsExt ly \<and> extIdx s + nn > totExts tt then None
                else
                  (case SetParams (prjnIdx s) (totPrjns tt) rprjns (Net_Prjns (bnet s)) of
                     None \<Rightarrow> None
                   | Some ps \<Rightarrow>
                       (let net1 = (bnet s)\<lparr>Net_Layers :=
                                       (Net_Layers (bnet s))[li := ly\<lparr>Lay_Neurons := nn\<rparr>],
                                     Net_Prjns := ps\<rparr>;
                            net2 = fst (lb net1 li);
                            emsg1 = (case snd (lb net1 li) of
                                       None \<Rightarrow> emsg s
                                     | Some e \<Rightarrow> emsg s @ e @ [newline])
                        in case CountSynapses (Net_Prjns net2) rprjns (totSynapses s) of
                             None \<Rightarrow> None
                           | Some tot \<Rightarrow>
                               (case ixn (Net_Layers net2) li of
                                  None \<Rightarrow> None
                                | Some ly2 \<Rightarrow>
                                    Some (s\<lparr>bnet := net2, emsg := emsg1, totSynapses := tot,
                                      totRecvCon := totRecvCon s + nn * length rprjns,
                                      totSendCon := totSendCon s + nn * length (Lay_SndPrjns ly2),
                                      neurIdx := neurIdx s + nn,
                                      prjnIdx := prjnIdx s + length rprjns,
                                      sprjnIdx := sprjnIdx s + length (Lay_SndPrjns ly2),
                                      poolIdx := poolIdx s + np,
                                      extIdx := (if Lay_IsExt ly then extIdx s + nn
                                                 else extIdx s)\<rparr>))))))"

fun BuildLoop :: "(BNet \<Rightarrow> nat \<Rightarrow> BNet \<times> string option) \<Rightarrow> BTotals \<Rightarrow> nat list \<Rightarrow> BState
    \<Rightarrow> BState option" where
  "BuildLoop lb tt [] s = Some s"
| "BuildLoop lb tt (li # lis) s =
     (case BuildLayer lb tt li s of
        None \<Rightarrow> None
      | Some s1 \<Rightarrow> BuildLoop lb tt lis s1)"

text \<open>
  ``Distribute synapses, recv'': the loops over all the layers and their \<^verbatim>\<open>RcvPrjns\<close>.
  The innermost loop over the synapses \<^verbatim>\<open>syns\<close> of a receiver: \<open>n\<close> counts the passes
  that are left, \<open>ci\<close> is the loop variable; \<^verbatim>\<open>pj.RecvConIdx[int(rcon.Start)+ci]\<close> is
  an index, and \<^verbatim>\<open>slay.NeurStIdx\<close> needs the sending layer.
\<close>

fun RecvSynLoop :: "PrjnBase \<Rightarrow> StartN \<Rightarrow> nat \<Rightarrow> nat \<Rightarrow> nat \<Rightarrow> nat option" where
  "RecvSynLoop p rcon 0 ci sidx = Some sidx"
| "RecvSynLoop p rcon (Suc n) ci sidx =
     (if Start rcon + ci \<ge> length (PB_RecvConIdx p) then None
      else if PB_Send p = None then None
      else RecvSynLoop p rcon n (Suc ci) (Suc sidx))"

text \<open>
  The loop over the neurons of the receiving layer: \<open>ri\<close> is the loop variable, the pair
  is \<^verbatim>\<open>(sidx, recvConIdx)\<close>, \<open>tot\<close> is the length of \<^verbatim>\<open>nt.PrjnRecvCon\<close>.  \<open>rs\<close> is
  \<^verbatim>\<open>pj.RecvSyns\<close>, a method of prjnbase.go, which is not among the sources: \<open>rs p ri\<close>
  is the length of the slice that it returns, \<open>None\<close> when it panics.
\<close>

fun RecvNeurLoop :: "(PrjnBase \<Rightarrow> nat \<Rightarrow> nat option) \<Rightarrow> PrjnBase \<Rightarrow> nat \<Rightarrow> nat \<Rightarrow> nat \<Rightarrow> nat \<times> nat
    \<Rightarrow> (nat \<times> nat) option" where
  "RecvNeurLoop rs p tot 0 ri c = Some c"
| "RecvNeurLoop rs p tot (Suc n) ri c =
     (case ixn (PB_RecvCon p) ri of
        None \<Rightarrow> None
      | Some rcon \<Rightarrow>
          if snd c \<ge> tot then None
          else
            (case rs p ri of
               None \<Rightarrow> None
             | Some ns \<Rightarrow>
                 (case RecvSynLoop p rcon ns 0 (fst c) of
                    None \<Rightarrow> None
                  | Some sidx1 \<Rightarrow> RecvNeurLoop rs p tot n (Suc ri) (sidx1, Suc (snd c)))))"

text \<open>
  The loop over the receiving projections of one layer with \<open>nn\<close> neurons, on the store
  of the projections and the pair \<^verbatim>\<open>(sidx, recvConIdx)\<close>: \<^verbatim>\<open>pj.Params.Idxs\<close> needs
  \<^verbatim>\<open>pj.Params\<close>, and \<^verbatim>\<open>pj.Syns = nt.Synapses[sidx : sidx+nsyn]\<close> is a slice of the
  \<open>totSyn\<close> synapses.
\<close>

fun RecvPrjnLoop :: "(PrjnBase \<Rightarrow> nat \<Rightarrow> nat option) \<Rightarrow> nat \<Rightarrow> nat \<Rightarrow> nat \<Rightarrow> nat list
    \<Rightarrow> PrjnBase list \<times> nat \<times> nat \<Rightarrow> (PrjnBase list \<times> nat \<times> nat) option" where
  "RecvPrjnLoop rs totSyn tot nn [] c = Some c"
| "RecvPrjnLoop rs totSyn tot nn (pj # pjs) c =
     (case ixn (fst c) pj of
        None \<Rightarrow> None
      | Some p \<Rightarrow>
          (let sidx = fst (snd c);
               nsyn = length (PB_RecvConIdx p)
           in if \<not> PB_Params p then None
              else if sidx + nsyn > totSyn then None
              else
                (let p1 = p\<lparr>PB_Syns := nsyn, PB_SynsCap := totSyn - sidx\<rparr>
                 in case RecvNeurLoop rs p1 tot nn 0 (snd c) of
                      None \<Rightarrow> None
                    | Some c1 \<Rightarrow> RecvPrjnLoop rs totSyn tot nn pjs ((fst c)[pj := p1], c1))))"

fun RecvLayerLoop :: "(PrjnBase \<Rightarrow> nat \<Rightarrow> nat option) \<Rightarrow> nat \<Rightarrow> nat \<Rightarrow> BLayer list
    \<Rightarrow> PrjnBase list \<times> nat \<times> nat \<Rightarrow> (PrjnBase list \<times> nat \<times> nat) option" where
  "RecvLayerLoop rs totSyn tot [] c = Some c"
| "RecvLayerLoop rs totSyn tot (ly # ls) c =
     (case RecvPrjnLoop rs totSyn tot (Lay_Neurons ly) (Lay_RcvPrjns ly) c of
        None \<Rightarrow> None
      | Some c1 \<Rightarrow> RecvLayerLoop rs totSyn tot ls c1)"

text \<open>
  ``Update sending synapse / prjn info'': the loops over all the layers and their
  \<^verbatim>\<open>SndPrjns\<close>.  The innermost loop over the indices \<^verbatim>\<open>sidxs\<close> of a sender:
  \<^verbatim>\<open>pj.Syns[ssi]\<close> and \<^verbatim>\<open>nt.SendSynIdxs[sidx]\<close> are indices.
\<close>

fun SendSynLoop :: "PrjnBase \<Rightarrow> nat \<Rightarrow> nat list \<Rightarrow> nat \<Rightarrow> nat option" where
  "SendSynLoop p totSyn [] sidx = Some sidx"
| "SendSynLoop p totSyn (ssi # ssis) sidx =
     (if ssi \<ge> PB_Syns p then None
      else if sidx \<ge> totSyn then None
      else SendSynLoop p totSyn ssis (Suc sidx))"

text \<open>
  The loop over the neurons of the sending layer: the pair is \<^verbatim>\<open>(sidx, sendConIdx)\<close>,
  \<open>tot\<close> is the length of \<^verbatim>\<open>nt.PrjnSendCon\<close>.  \<open>ss\<close> is \<^verbatim>\<open>pj.SendSynIdxs\<close>, a
  method of prjnbase.go, which is not among the sources: \<open>ss p si\<close> is the slice that it
  returns, \<open>None\<close> when it panics.
\<close>

fun SendNeurLoop :: "(PrjnBase \<Rightarrow> nat \<Rightarrow> nat list option) \<Rightarrow> PrjnBase \<Rightarrow> nat \<Rightarrow> nat \<Rightarrow> nat \<Rightarrow> nat
    \<Rightarrow> nat \<times> nat \<Rightarrow> (nat \<times> nat) option" where
  "SendNeurLoop ss p totSyn tot 0 si c = Some c"
| "SendNeurLoop ss p totSyn tot (Suc n) si c =
     (case ixn (PB_SendCon p) si of
        None \<Rightarrow> None
      | Some scon \<Rightarrow>
          if snd c \<ge> tot then None
          else
            (case ss p si of
               None \<Rightarrow> None
             | Some sidxs \<Rightarrow>
                 (case SendSynLoop p totSyn sidxs (fst c) of
                    None \<Rightarrow> None
                  | Some sidx1 \<Rightarrow> SendNeurLoop ss p totSyn tot n (Suc si) (sidx1, Suc (snd c)))))"

text \<open>
  The loop over the sending projections of one layer with \<open>nn\<close> neurons, on the triple
  \<^verbatim>\<open>(sprjnIdx, sidx, sendConIdx)\<close>: \<^verbatim>\<open>nt.SendPrjnIdxs[sprjnIdx]\<close> is an index into
  an array of length \<open>nsend\<close>, and \<^verbatim>\<open>pj.Params.Idxs\<close> needs \<^verbatim>\<open>pj.Params\<close>.
\<close>

fun SendPrjnLoop :: "(PrjnBase \<Rightarrow> nat \<Rightarrow> nat list option) \<Rightarrow> PrjnBase list \<Rightarrow> nat \<Rightarrow> nat \<Rightarrow> nat \<Rightarrow> nat
    \<Rightarrow> nat list \<Rightarrow> nat \<times> nat \<times> nat \<Rightarrow> (nat \<times> nat \<times> nat) option" where
  "SendPrjnLoop ss ps totSyn tot nsend nn [] c = Some c"
| "SendPrjnLoop ss ps totSyn tot nsend nn (pj # pjs) c =
     (case ixn ps pj of
        None \<Rightarrow> None
      | Some p \<Rightarrow>
          if fst c \<ge> nsend then None
          else if \<not> PB_Params p then None
          else
            (case SendNeurLoop ss p totSyn tot nn 0 (snd c) of
               None \<Rightarrow> None
             | Some c1 \<Rightarrow> SendPrjnLoop ss ps totSyn tot nsend nn pjs (Suc (fst c), c1)))"

fun SendLayerLoop :: "(PrjnBase \<Rightarrow> nat \<Rightarrow> nat list option) \<Rightarrow> PrjnBase list \<Rightarrow> nat \<Rightarrow> nat \<Rightarrow> nat
    \<Rightarrow> BLayer list \<Rightarrow> nat \<times> nat \<times> nat \<Rightarrow> (nat \<times> nat \<times> nat) option" where
  "SendLayerLoop ss ps totSyn tot nsend [] c = Some c"
| "SendLayerLoop ss ps totSyn tot nsend (ly # ls) c =
     (case SendPrjnLoop ss ps totSyn tot nsend (Lay_Neurons ly) (Lay_SndPrjns ly) c of
        None \<Rightarrow> None
      | Some c1 \<Rightarrow> SendLayerLoop ss ps totSyn tot nsend ls c1)"

text \<open>
  \<^verbatim>\<open>Build\<close>.  The arrays \<^verbatim>\<open>nt.Synapses\<close> and \<^verbatim>\<open>nt.SendSynIdxs\<close> have the length
  \<^verbatim>\<open>totSynapses\<close>, \<^verbatim>\<open>nt.PrjnRecvCon\<close> has \<^verbatim>\<open>totRecvCon\<close>, \<^verbatim>\<open>nt.PrjnSendCon\<close> has
  \<^verbatim>\<open>totSendCon\<close> and \<^verbatim>\<open>nt.SendPrjnIdxs\<close> has \<^verbatim>\<open>sprjnIdx\<close>, as the second loop
  leaves them.
\<close>

definition Build :: "(BNet \<Rightarrow> nat \<Rightarrow> BNet \<times> string option) \<Rightarrow> (PrjnBase \<Rightarrow> nat \<Rightarrow> nat option)
    \<Rightarrow> (PrjnBase \<Rightarrow> nat \<Rightarrow> nat list option) \<Rightarrow> BNet \<Rightarrow> build_result" where
  "Build lb rs ss net =
     (let nLayers = length (Net_Layers net);
          tt = CountLayers (Net_Layers net)
                 \<lparr>totPools = nLayers, totNeurons = 0, totExts = 0, totPrjns = 0\<rparr>;
          s0 = \<lparr>bnet = net, emsg = [], totSynapses = 0, totRecvCon = 0, totSendCon = 0,
                neurIdx = 0, prjnIdx = 0, sprjnIdx = 0, poolIdx = 0, extIdx = 0\<rparr>
      in case BuildLoop lb tt [0..<nLayers] s0 of
           None \<Rightarrow> Panic
         | Some s \<Rightarrow>
             if totSynapses s > MaxUint32 then Fatal
             else
               (case RecvLayerLoop rs (totSynapses s) (totRecvCon s) (Net_Layers (bnet s))
                       (Net_Prjns (bnet s), 0, 0) of
                  None \<Rightarrow> Panic
                | Some c \<Rightarrow>
                    (case SendLayerLoop ss (fst c) (totSynapses s) (totSendCon s) (sprjnIdx s)
                            (Net_Layers (bnet s)) (0, 0, 0) of
                       None \<Rightarrow> Panic
                     | Some c1 \<Rightarrow>
                         if emsg s \<noteq> [] then Returned (Some (emsg s)) else Returned None)))"

text \<open>
  For the proofs.  \<open>keeps_layers lb\<close>: the build of a layer leaves it as it is which
  layers are off and which projections a layer sends; \<open>snd_on\<close> and \<open>snd_all\<close> count
  the sending projections of the layers that are on, and of all layers.
\<close>

definition keeps_layers :: "(BNet \<Rightarrow> nat \<Rightarrow> BNet \<times> string option) \<Rightarrow> bool" where
  "keeps_layers lb = (\<forall>net li.
      map Lay_Off (Net_Layers (fst (lb net li))) = map Lay_Off (Net_Layers net)
    \<and> map Lay_SndPrjns (Net_Layers (fst (lb net li))) = map Lay_SndPrjns (Net_Layers net))"

definition snd_on :: "BLayer list \<Rightarrow> nat" where
  "snd_on ls = sum_list (map (\<lambda>ly. if Lay_Off ly then 0 else length (Lay_SndPrjns ly)) ls)"

definition snd_all :: "BLayer list \<Rightarrow> nat" where
  "snd_all ls = sum_list (map (\<lambda>ly. length (Lay_SndPrjns ly)) ls)"

text \<open>
  Test data.  The methods that are not among the sources, for a network whose layers all
  have two neurons: the build of a layer connects each of its receiving projections one
  to one, and returns an error for the layers at 0 and at 2; \<^verbatim>\<open>RecvSyns\<close> and
  \<^verbatim>\<open>SendSynIdxs\<close> give the block of a neuron, as the field docs of
  \<^verbatim>\<open>NetworkBase.PrjnRecvCon\<close> and \<^verbatim>\<open>NetworkBase.PrjnSendCon\<close> have it.
\<close>

definition build_prjn :: "PrjnBase \<Rightarrow> PrjnBase" where
  "build_prjn p = p\<lparr>PB_RecvConIdx := [0, 1],
     PB_RecvCon := [\<lparr>Start = 0, N = 1\<rparr>, \<lparr>Start = 1, N = 1\<rparr>],
     PB_SendCon := [\<lparr>Start = 0, N = 1\<rparr>, \<lparr>Start = 1, N = 1\<rparr>],
     PB_SendSynIdx := [0, 1]\<rparr>"

definition toy_lb :: "BNet \<Rightarrow> nat \<Rightarrow> BNet \<times> string option" where
  "toy_lb net li =
     (net\<lparr>Net_Prjns := fold (\<lambda>pj ps. ps[pj := build_prjn (ps ! pj)])
                           (Lay_RcvPrjns (Net_Layers net ! li)) (Net_Prjns net)\<rparr>,
      if li = 0 then Some ''a'' else if li = 2 then Some ''b'' else None)"

definition toy_rs :: "PrjnBase \<Rightarrow> nat \<Rightarrow> nat option" where
  "toy_rs p ri =
     (case ixn (PB_RecvCon p) ri of
        None \<Rightarrow> None
      | Some rcon \<Rightarrow> if Start rcon + N rcon \<le> PB_SynsCap p then Some (N rcon) else None)"

definition toy_ss :: "PrjnBase \<Rightarrow> nat \<Rightarrow> nat list option" where
  "toy_ss p si =
     (case ixn (PB_SendCon p) si of
        None \<Rightarrow> None
      | Some scon \<Rightarrow> slice (PB_SendSynIdx p) (Start scon) (Start scon + N scon))"

text \<open>
  Three layers of two neurons and one projection, from the second layer into the first;
  \<open>off\<close> says whether the second layer is off.
\<close>

definition toy_layer :: BLayer where
  "toy_layer = \<lparr>Lay_Off = False, Lay_Len = 2, Lay_NumDims = 2, Lay_NSubPools = 0,
     Lay_IsExt = False, Lay_RcvPrjns = [], Lay_SndPrjns = [], Lay_Neurons = 0\<rparr>"

definition toy_bnet :: "bool \<Rightarrow> BNet" where
  "toy_bnet off =
     \<lparr>Net_Layers = [toy_layer\<lparr>Lay_IsExt := True, Lay_RcvPrjns := [0]\<rparr>,
                     toy_layer\<lparr>Lay_Off := off, Lay_SndPrjns := [0]\<rparr>,
                     toy_layer],
      Net_Prjns = [\<lparr>PB_Params = False, PB_Send = Some 1, PB_RecvConIdx = [], PB_RecvCon = [],
                     PB_SendCon = [], PB_SendSynIdx = [], PB_Syns = 0, PB_SynsCap = 0\<rparr>]\<rparr>"

subsection \<open>networkbase.go: reading weights\<close>

text \<open>
  \<^verbatim>\<open>weights.Network\<close> and \<^verbatim>\<open>weights.Layer\<close> (package emergent/weights, outside the
  repository) are the decoded form of a weights file; \<open>'p\<close> stands for what a layer's
  entry holds besides the layer's name.  A Go map that may be \<^verbatim>\<open>nil\<close> is an optional map.
\<close>

record 'p WtsLayer =
  WL_Layer :: string
  WL_Data :: 'p

record 'p WtsNetwork =
  WN_Network :: string
  WN_MetaData :: "(string \<rightharpoonup> string) option"
  WN_Layers :: "'p WtsLayer list"

text \<open>A layer with its name and its weight state \<open>'w\<close>; the network with its layers.\<close>

record 'w WLayer =
  LName :: string
  LWts :: 'w

record 'w NetworkBase =
  Nm :: string
  MetaData :: "(string \<rightharpoonup> string) option"
  Layers :: "'w WLayer list"

text \<open>
  \<^verbatim>\<open>MakeLayMap\<close> enters the layers in order, so the last layer of a name is the one
  the map holds; a map entry is the position of the layer in \<^verbatim>\<open>nt.Layers\<close>.
  \<^verbatim>\<open>AxonLayerByName\<close> makes the map anew when it is nil or of another size than
  \<^verbatim>\<open>nt.Layers\<close>; the model makes it anew at every look-up.
\<close>

definition MakeLayMap :: "'w WLayer list \<Rightarrow> (string \<rightharpoonup> nat)" where
  "MakeLayMap ls = foldl (\<lambda>m p. m(LName (snd p) \<mapsto> fst p)) Map.empty (enumerate 0 ls)"

definition LayByNameTry :: "'w NetworkBase \<Rightarrow> string \<Rightarrow> string + nat" where
  "LayByNameTry nt name =
     (case MakeLayMap (Layers nt) name of
        None \<Rightarrow> Inl (''Layer named: '' @ name @ '' not found in Network: '' @ Nm nt @ [newline])
      | Some i \<Rightarrow> Inr i)"

text \<open>
  The loop of \<^verbatim>\<open>SetWts\<close> over \<^verbatim>\<open>nw.Layers\<close>.  \<open>lset\<close> is \<^verbatim>\<open>Layer.SetWts\<close>
  (layer.go), whose error \<^verbatim>\<open>SetWts\<close> drops; \<open>err\<close> is the local \<^verbatim>\<open>err\<close>.
\<close>

fun SetWtsLayers :: "('w WLayer \<Rightarrow> 'p WtsLayer \<Rightarrow> 'w WLayer) \<Rightarrow> 'w NetworkBase \<Rightarrow> 'p WtsLayer list
    \<Rightarrow> string option \<Rightarrow> 'w NetworkBase \<times> string option" where
  "SetWtsLayers lset nt [] err = (nt, err)"
| "SetWtsLayers lset nt (lw # lws) err =
     (case LayByNameTry nt (WL_Layer lw) of
        Inl er \<Rightarrow> SetWtsLayers lset nt lws (Some er)
      | Inr i \<Rightarrow> SetWtsLayers lset (nt\<lparr>Layers := (Layers nt)[i := lset (Layers nt ! i) lw]\<rparr>) lws err)"

definition SetWts :: "('w WLayer \<Rightarrow> 'p WtsLayer \<Rightarrow> 'w WLayer) \<Rightarrow> 'w NetworkBase \<Rightarrow> 'p WtsNetwork
    \<Rightarrow> 'w NetworkBase \<times> string option" where
  "SetWts lset nt nw =
     (let nt1 = (if WN_Network nw \<noteq> [] then nt\<lparr>Nm := WN_Network nw\<rparr> else nt);
          nt2 = (case WN_MetaData nw of
                   None \<Rightarrow> nt1
                 | Some md \<Rightarrow>
                     (case MetaData nt1 of
                        None \<Rightarrow> nt1\<lparr>MetaData := Some md\<rparr>
                      | Some m \<Rightarrow> nt1\<lparr>MetaData := Some (m ++ md)\<rparr>))
      in SetWtsLayers lset nt2 (WN_Layers nw) None)"

text \<open>
  \<^verbatim>\<open>ReadWtsJSON\<close>.  \<open>dec\<close> is \<^verbatim>\<open>weights.NetReadJSON\<close> (outside the repository):
  it reads the whole input \<open>r\<close> and gives an error or the decoded structure.  The result
  is the network afterwards and the error returned.
\<close>

definition ReadWtsJSON :: "('r \<Rightarrow> string + 'p WtsNetwork) \<Rightarrow> ('w WLayer \<Rightarrow> 'p WtsLayer \<Rightarrow> 'w WLayer)
    \<Rightarrow> 'w NetworkBase \<Rightarrow> 'r \<Rightarrow> 'w NetworkBase \<times> string option" where
  "ReadWtsJSON dec lset nt r =
     (case dec r of
        Inl err \<Rightarrow> (nt, Some err)
      | Inr nw \<Rightarrow> SetWts lset nt nw)"

text \<open>Test data: a decoder that accepts one input, and a network of two layers.\<close>

definition toy_dec :: "string \<Rightarrow> string + nat WtsNetwork" where
  "toy_dec r =
     (if r = ''ok''
      then Inr \<lparr>WN_Network = ''Net'', WN_MetaData = None,
                WN_Layers = [\<lparr>WL_Layer = ''Hidden'', WL_Data = 7\<rparr>]\<rparr>
      else Inl ''unexpected end of JSON input'')"

definition toy_net :: "nat NetworkBase" where
  "toy_net = \<lparr>Nm = ''Net'', MetaData = None,
     Layers = [\<lparr>LName = ''Input'', LWts = 1\<rparr>, \<lparr>LName = ''Hidden'', LWts = 2\<rparr>]\<rparr>"

definition toy_lset :: "nat WLayer \<Rightarrow> nat WtsLayer \<Rightarrow> nat WLayer" where
  "toy_lset ly lw = ly\<lparr>LWts := WL_Data lw\<rparr>"

subsection \<open>synapse.go and prjn.go: the projection\<close>

text \<open>
  \<^verbatim>\<open>Synapse\<close>.  \<^verbatim>\<open>CaUpT\<close> is an \<^verbatim>\<open>int32\<close>; the field \<^verbatim>\<open>SynIdx\<close> is
  \<open>Syn_SynIdx\<close> here and the fields \<^verbatim>\<open>Tr\<close>, \<^verbatim>\<open>DTr\<close> are \<open>Syn_Tr\<close>,
  \<open>Syn_DTr\<close> (the names are taken by \<^verbatim>\<open>Prjn.SynIdx\<close> and \<^verbatim>\<open>SpikeParams.Tr\<close>).
\<close>

record Synapse =
  Syn_SynIdx :: nat
  RecvIdx :: nat
  SendIdx :: nat
  PrjnIdx :: nat
  CaUpT :: int
  Wt :: real
  LWt :: real
  SWt :: real
  DWt :: real
  DSWt :: real
  Ca :: real
  CaM :: real
  CaP :: real
  CaD :: real
  Syn_Tr :: real
  Syn_DTr :: real

definition SynapseVars :: "string list" where
  "SynapseVars = [''Wt'', ''LWt'', ''SWt'', ''DWt'', ''DSWt'', ''Ca'', ''CaM'', ''CaP'', ''CaD'', ''Tr'', ''DTr'']"

text \<open>
  \<^verbatim>\<open>SynapseVarByName\<close> looks the name up in \<^verbatim>\<open>SynapseVarsMap\<close>, which
  \<^verbatim>\<open>init\<close> fills with the position of each name of \<^verbatim>\<open>SynapseVars\<close>;
  \<open>None\<close> is the error.
\<close>

fun index_of :: "'a list \<Rightarrow> 'a \<Rightarrow> nat \<Rightarrow> nat option" where
  "index_of [] x i = None"
| "index_of (y # ys) x i = (if y = x then Some i else index_of ys x (Suc i))"

definition SynapseVarByName :: "string \<Rightarrow> int option" where
  "SynapseVarByName varNm = map_option int (index_of SynapseVars varNm 0)"

text \<open>
  \<^verbatim>\<open>VarByIndex\<close> reads the \<^verbatim>\<open>float32\<close> at byte \<^verbatim>\<open>SynapseVarStart + 4*idx\<close>
  of the struct, that is the field number \<open>idx\<close> after the five integer fields.
\<close>

definition VarByIndex :: "Synapse \<Rightarrow> nat \<Rightarrow> real" where
  "VarByIndex sy idx =
     [Wt sy, LWt sy, SWt sy, DWt sy, DSWt sy, Ca sy, CaM sy, CaP sy, CaD sy, Syn_Tr sy, Syn_DTr sy] ! idx"

text \<open>
  Modelled from the spec: \<^verbatim>\<open>ringidx.FIx\<close> (package emergent/ringidx) is not among the
  sources.  The spec has the slot of a send at ``currentCycle+delay mod bufferLength'':
  \<^verbatim>\<open>Idx\<close> adds the zero index \<^verbatim>\<open>Zi\<close> to the logical index and wraps around at
  \<^verbatim>\<open>Len\<close>, and \<^verbatim>\<open>Shift\<close> moves the zero index up.
\<close>

record FIx =
  Zi :: nat
  Len :: nat

definition Idx :: "FIx \<Rightarrow> nat \<Rightarrow> nat" where
  "Idx fi i = (let j = u32 (i + Zi fi) in if j \<ge> Len fi then j - Len fi else j)"

definition Shift :: "FIx \<Rightarrow> nat \<Rightarrow> FIx" where
  "Shift fi n = fi\<lparr>Zi := Idx fi n\<rparr>"

record PrjnGVals =
  GRaw :: real
  GSyn :: real

text \<open>
  \<^verbatim>\<open>Prjn\<close> of prjn.go, with the parameters and the connectivity of \<^verbatim>\<open>PrjnBase\<close>
  that its methods read: \<open>Delay\<close> is \<^verbatim>\<open>Params.Com.Delay\<close>, \<open>Inhib\<close> is
  \<^verbatim>\<open>Params.Com.Inhib\<close>, \<open>GScale\<close> is \<^verbatim>\<open>Params.GScale.Scale\<close>, \<open>Learn\<close> is
  \<^verbatim>\<open>Params.Learn.Learn\<close>, \<open>SpikeG\<close> and \<open>UpdtThr\<close> are those of
  \<^verbatim>\<open>Params.Learn.KinaseCa\<close>, and \<open>Gidx\<close> is \<^verbatim>\<open>Vals.Gidx\<close>.
\<close>

record Prjn =
  Delay :: nat
  Inhib :: bool
  GScale :: real
  Learn :: bool
  SpikeG :: real
  UpdtThr :: real
  SendConN :: "nat list"
  SendConIdxStart :: "nat list"
  SendConIdx :: "nat list"
  RecvConN :: "nat list"
  RecvConIdxStart :: "nat list"
  RecvConIdx :: "nat list"
  RecvSynIdx :: "nat list"
  Syns :: "Synapse list"
  Gidx :: FIx
  GBuf :: "real list"
  PIBuf :: "real list"
  PIdxs :: "nat list"
  GVals :: "PrjnGVals list"

subsection \<open>prjn.go: the synapse queries\<close>

text \<open>A \<^verbatim>\<open>float32\<close> that a query returns: a number, or \<^verbatim>\<open>mat32.NaN()\<close>.\<close>

datatype f32 = NaN | Fin real

text \<open>
  The loop of \<^verbatim>\<open>SynIdx\<close>: \<open>n\<close> counts the passes that are left, \<open>ci\<close> is the
  loop variable.
\<close>

fun SynIdxLoop :: "nat list \<Rightarrow> int \<Rightarrow> int \<Rightarrow> nat \<Rightarrow> int \<Rightarrow> int option" where
  "SynIdxLoop cons st ridx 0 ci = Some (-1)"
| "SynIdxLoop cons st ridx (Suc n) ci =
     (case ix cons (st + ci) of
        None \<Rightarrow> None
      | Some ri \<Rightarrow> if int ri \<noteq> ridx then SynIdxLoop cons st ridx n (ci + 1) else Some (st + ci))"

definition SynIdx :: "Prjn \<Rightarrow> int \<Rightarrow> int \<Rightarrow> int option" where
  "SynIdx pj sidx ridx =
     (if sidx \<ge> int (length (SendConN pj)) then Some (-1)
      else
        (case ix (SendConN pj) sidx of
           None \<Rightarrow> None
         | Some nc \<Rightarrow>
             (case ix (SendConIdxStart pj) sidx of
                None \<Rightarrow> None
              | Some st \<Rightarrow> SynIdxLoop (SendConIdx pj) (int st) ridx nc 0)))"

definition SynVarNum :: int where
  "SynVarNum = int (length SynapseVars)"

definition SynVal1D :: "Prjn \<Rightarrow> int \<Rightarrow> int \<Rightarrow> f32" where
  "SynVal1D pj varIdx synIdx =
     (if synIdx < 0 \<or> synIdx \<ge> int (length (Syns pj)) then NaN
      else if varIdx < 0 \<or> varIdx \<ge> SynVarNum then NaN
      else Fin (VarByIndex (Syns pj ! nat synIdx) (nat varIdx)))"

definition SynVal :: "Prjn \<Rightarrow> string \<Rightarrow> int \<Rightarrow> int \<Rightarrow> f32 option" where
  "SynVal pj varNm sidx ridx =
     (case SynapseVarByName varNm of
        None \<Rightarrow> Some NaN
      | Some vidx \<Rightarrow>
          (case SynIdx pj sidx ridx of
             None \<Rightarrow> None
           | Some synIdx \<Rightarrow> Some (SynVal1D pj vidx synIdx)))"

text \<open>
  The connectivity is in order for the sender-side queries when every sender has its
  start and its count, and its block of \<^verbatim>\<open>SendConIdx\<close> lies inside the array, which
  has one entry for each synapse.
\<close>

definition send_con_ok :: "Prjn \<Rightarrow> bool" where
  "send_con_ok pj =
     (length (SendConIdxStart pj) = length (SendConN pj)
      \<and> length (SendConIdx pj) = length (Syns pj)
      \<and> (\<forall>si < length (SendConN pj).
            SendConIdxStart pj ! si + SendConN pj ! si \<le> length (SendConIdx pj)))"

text \<open>There is a synapse from sender \<open>si\<close> to receiver \<open>ri\<close>.\<close>

definition has_syn :: "Prjn \<Rightarrow> nat \<Rightarrow> nat \<Rightarrow> bool" where
  "has_syn pj si ri =
     (si < length (SendConN pj)
      \<and> (\<exists>ci < SendConN pj ! si. SendConIdx pj ! (SendConIdxStart pj ! si + ci) = ri))"

text \<open>Test data: two senders fully connected to two receivers, with delay 1.\<close>

definition syn0 :: Synapse where
  "syn0 = \<lparr>Syn_SynIdx = 0, RecvIdx = 0, SendIdx = 0, PrjnIdx = 0, CaUpT = -1, Wt = 1, LWt = 1/2,
     SWt = 1, DWt = 0, DSWt = 0, Ca = 0, CaM = 0, CaP = 0, CaD = 0, Syn_Tr = 0, Syn_DTr = 0\<rparr>"

definition toy_prjn :: Prjn where
  "toy_prjn = \<lparr>Delay = 1, Inhib = True, GScale = 1, Learn = True, SpikeG = 12, UpdtThr = 0,
     SendConN = [2, 2], SendConIdxStart = [0, 2], SendConIdx = [0, 1, 0, 1],
     RecvConN = [2, 2], RecvConIdxStart = [0, 2], RecvConIdx = [0, 1, 0, 1],
     RecvSynIdx = [0, 2, 1, 3],
     Syns = [syn0, syn0\<lparr>Wt := 2\<rparr>, syn0\<lparr>Wt := 3\<rparr>, syn0\<lparr>Wt := 4\<rparr>],
     Gidx = \<lparr>Zi = 0, Len = 2\<rparr>,
     GBuf = [0, 0, 0, 0], PIBuf = [0, 0], PIdxs = [0, 0],
     GVals = [\<lparr>GRaw = 0, GSyn = 0\<rparr>, \<lparr>GRaw = 0, GSyn = 0\<rparr>]\<rparr>"

subsection \<open>prjn.go: the ring buffer of a projection\<close>

text \<open>
  \<^verbatim>\<open>BuildGBuffs\<close>.  \<open>rlen\<close> is \<^verbatim>\<open>pj.Recv.Shape().Len()\<close>, the number of
  receiving neurons, and \<open>npools\<close> is \<^verbatim>\<open>len(rlay.Pools)\<close>.
\<close>

definition BuildGBuffs :: "Prjn \<Rightarrow> nat \<Rightarrow> nat \<Rightarrow> Prjn" where
  "BuildGBuffs pj rlen npools =
     (let dl = u32 (Delay pj + 1);
          gblen = u32 (dl * u32 rlen)
      in if Len (Gidx pj) = dl \<and> u32 (length (GBuf pj)) = gblen then pj
         else pj\<lparr>Gidx := (Gidx pj)\<lparr>Len := dl, Zi := 0\<rparr>,
                 GBuf := replicate gblen 0,
                 PIBuf := replicate (dl * npools) 0\<rparr>)"

text \<open>
  The loop of \<^verbatim>\<open>SendSpike\<close> over the synapses of the sender, each with the index of
  its receiver; the state is \<^verbatim>\<open>(pj.GBuf, pj.PIBuf)\<close>.  The buffer indexes are
  \<^verbatim>\<open>uint32\<close> expressions.
\<close>

fun SendSpikeLoop :: "Prjn \<Rightarrow> nat \<Rightarrow> nat \<Rightarrow> (nat \<times> Synapse) list \<Rightarrow> real list \<times> real list
    \<Rightarrow> (real list \<times> real list) option" where
  "SendSpikeLoop pj sz cur [] bufs = Some bufs"
| "SendSpikeLoop pj sz cur (c # rest) bufs =
     (let sv = GScale pj * Wt (snd c);
          bi = u32 (fst c * sz + cur)
      in if bi < length (fst bufs) then
           (let gbuf1 = (fst bufs)[bi := fst bufs ! bi + sv]
            in if \<not> Inhib pj then
                 (case ixn (PIdxs pj) (fst c) of
                    None \<Rightarrow> None
                  | Some p \<Rightarrow>
                      (let pbi = u32 (p * sz + cur)
                       in if pbi < length (snd bufs)
                          then SendSpikeLoop pj sz cur rest
                                 (gbuf1, (snd bufs)[pbi := snd bufs ! pbi + sv])
                          else None))
               else SendSpikeLoop pj sz cur rest (gbuf1, snd bufs))
         else None)"

definition SendSpike :: "Prjn \<Rightarrow> int \<Rightarrow> Prjn option" where
  "SendSpike pj sendIdx =
     (let maxDelay = Delay pj;
          delayBufSize = u32 (maxDelay + 1);
          currDelayIdx = Idx (Gidx pj) maxDelay
      in case ix (SendConN pj) sendIdx of
           None \<Rightarrow> None
         | Some numCons \<Rightarrow>
        (case ix (SendConIdxStart pj) sendIdx of
           None \<Rightarrow> None
         | Some startIdx \<Rightarrow>
        (case slice (Syns pj) startIdx (u32 (startIdx + numCons)) of
           None \<Rightarrow> None
         | Some syns \<Rightarrow>
        (case slice (SendConIdx pj) startIdx (u32 (startIdx + numCons)) of
           None \<Rightarrow> None
         | Some synConIdxs \<Rightarrow>
        (case SendSpikeLoop pj delayBufSize currDelayIdx (zip synConIdxs syns) (GBuf pj, PIBuf pj) of
           None \<Rightarrow> None
         | Some bufs \<Rightarrow> Some (pj\<lparr>GBuf := fst bufs, PIBuf := snd bufs\<rparr>))))))"

text \<open>
  The loop of \<^verbatim>\<open>PrjnGatherSpikes\<close> over \<^verbatim>\<open>pj.GVals\<close>: the neuron \<open>ri\<close> reads
  its slot of this cycle into \<^verbatim>\<open>GRaw\<close>, clears the slot and integrates \<^verbatim>\<open>GSyn\<close>
  with \<open>f\<close> (\<^verbatim>\<open>GiSynFmRaw\<close> or \<^verbatim>\<open>GeSynFmRaw\<close> of the receiving layer).
\<close>

fun GatherLoop :: "(real \<Rightarrow> real \<Rightarrow> real) \<Rightarrow> nat \<Rightarrow> nat \<Rightarrow> nat \<Rightarrow> PrjnGVals list \<Rightarrow> real list
    \<Rightarrow> (PrjnGVals list \<times> real list) option" where
  "GatherLoop f sz zi ri [] gbuf = Some ([], gbuf)"
| "GatherLoop f sz zi ri (gv # gvs) gbuf =
     (let bi = u32 (u32 ri * sz + zi)
      in if bi < length gbuf then
           (case GatherLoop f sz zi (Suc ri) gvs (gbuf[bi := 0]) of
              None \<Rightarrow> None
            | Some r \<Rightarrow>
                Some (gv\<lparr>GRaw := gbuf ! bi, GSyn := f (GSyn gv) (gbuf ! bi)\<rparr> # fst r, snd r))
         else None)"

text \<open>
  The loop over the pools of the receiving layer, for a layer with more than one pool:
  a pool is its \<^verbatim>\<open>Inhib.FFsRaw\<close>, pool 0 is the layer's pool \<^verbatim>\<open>lpl\<close>, \<open>n\<close> counts
  the passes that are left.
\<close>

fun PoolLoop :: "nat \<Rightarrow> nat \<Rightarrow> nat \<Rightarrow> nat \<Rightarrow> real list \<times> real list \<Rightarrow> (real list \<times> real list) option" where
  "PoolLoop sz zi k 0 s = Some s"
| "PoolLoop sz zi k (Suc n) s =
     (let bi = u32 (u32 k * sz + zi)
      in if bi < length (snd s) then
           (let sv = snd s ! bi;
                pools1 = (fst s)[k := fst s ! k + sv];
                pools2 = pools1[0 := pools1 ! 0 + sv]
            in PoolLoop sz zi (Suc k) n (pools2, (snd s)[bi := 0]))
         else None)"

definition GatherPools :: "Prjn \<Rightarrow> nat \<Rightarrow> nat \<Rightarrow> real list \<Rightarrow> (real list \<times> real list) option" where
  "GatherPools pj sz zi pools =
     (if pools = [] then None
      else if length pools = 1 then
        (case ixn (PIBuf pj) zi of
           None \<Rightarrow> None
         | Some v \<Rightarrow> Some (pools[0 := pools ! 0 + v], (PIBuf pj)[zi := 0]))
      else PoolLoop sz zi 0 (length pools) (pools, PIBuf pj))"

text \<open>
  \<^verbatim>\<open>PrjnGatherSpikes\<close>: \<open>dp\<close> is \<^verbatim>\<open>rlay.Params.Act.Dt\<close> and \<open>pools\<close> are the
  pools of the receiving layer; the result is the projection and the pools afterwards.
\<close>

definition PrjnGatherSpikes :: "DtParams \<Rightarrow> Prjn \<times> real list \<Rightarrow> (Prjn \<times> real list) option" where
  "PrjnGatherSpikes dp s =
     (let pj = fst s;
          sz = u32 (Delay pj + 1);
          zi = Zi (Gidx pj)
      in if Inhib pj then
           (case GatherLoop (GiSynFmRaw dp) sz zi 0 (GVals pj) (GBuf pj) of
              None \<Rightarrow> None
            | Some r \<Rightarrow> Some (pj\<lparr>GVals := fst r, GBuf := snd r, Gidx := Shift (Gidx pj) 1\<rparr>, snd s))
         else
           (case GatherPools pj sz zi (snd s) of
              None \<Rightarrow> None
            | Some p \<Rightarrow>
                (case GatherLoop (GeSynFmRaw dp) sz zi 0 (GVals pj) (GBuf pj) of
                   None \<Rightarrow> None
                 | Some r \<Rightarrow>
                     Some (pj\<lparr>GVals := fst r, GBuf := snd r, PIBuf := snd p,
                               Gidx := Shift (Gidx pj) 1\<rparr>, fst p))))"

text \<open>\<open>n\<close> calls of \<^verbatim>\<open>PrjnGatherSpikes\<close> in a row, one for each cycle.\<close>

fun Gathers :: "DtParams \<Rightarrow> nat \<Rightarrow> Prjn \<times> real list \<Rightarrow> (Prjn \<times> real list) option" where
  "Gathers dp 0 s = Some s"
| "Gathers dp (Suc n) s =
     (case PrjnGatherSpikes dp s of None \<Rightarrow> None | Some s1 \<Rightarrow> Gathers dp n s1)"

text \<open>
  Modelled from the spec: the cycle of the network (network.go and layer.go are not among
  the sources).  The spec has, for each cycle, the gather of the spike transmission
  first and the send last: ``SpikeTransmission gather \<rightarrow> \<dots> \<rightarrow> spike decision \<rightarrow>
  SpikeTransmission send''.  \<open>spikes\<close> are the senders that spike in this cycle.
\<close>

fun SendSpikes :: "Prjn \<Rightarrow> int list \<Rightarrow> Prjn option" where
  "SendSpikes pj [] = Some pj"
| "SendSpikes pj (s # ss) = (case SendSpike pj s of None \<Rightarrow> None | Some pj1 \<Rightarrow> SendSpikes pj1 ss)"

definition Cycle :: "DtParams \<Rightarrow> int list \<Rightarrow> Prjn \<times> real list \<Rightarrow> (Prjn \<times> real list) option" where
  "Cycle dp spikes s =
     (case PrjnGatherSpikes dp s of
        None \<Rightarrow> None
      | Some s1 \<Rightarrow> (case SendSpikes (fst s1) spikes of None \<Rightarrow> None | Some pj \<Rightarrow> Some (pj, snd s1)))"

text \<open>
  The ring buffer is in order: the ring has \<^verbatim>\<open>Delay + 1\<close> slots, one ring for each
  neuron of \<^verbatim>\<open>GVals\<close>, the indexes fit a \<^verbatim>\<open>uint32\<close>, and a projection that is not
  inhibitory has one ring for each of the \<open>np\<close> pools of the receiving layer.
\<close>

definition gbuf_ok :: "Prjn \<Rightarrow> nat \<Rightarrow> bool" where
  "gbuf_ok pj np =
     (Len (Gidx pj) = Delay pj + 1 \<and> Zi (Gidx pj) \<le> Delay pj
      \<and> length (GBuf pj) = length (GVals pj) * (Delay pj + 1)
      \<and> length (GVals pj) * (Delay pj + 1) < 2 ^ 32
      \<and> Delay pj + 1 < 2 ^ 31
      \<and> (Inhib pj \<or> (0 < np \<and> length (PIBuf pj) = np * (Delay pj + 1)
                       \<and> np * (Delay pj + 1) < 2 ^ 32)))"

text \<open>
  The sender \<open>s\<close> can send: its block of synapses lies inside \<^verbatim>\<open>Syns\<close> and
  \<^verbatim>\<open>SendConIdx\<close>, every receiver of the block is a neuron of \<^verbatim>\<open>GVals\<close>, and (for a
  projection that is not inhibitory) has its pool among the \<open>np\<close> pools.
\<close>

definition send_ok :: "Prjn \<Rightarrow> nat \<Rightarrow> nat \<Rightarrow> bool" where
  "send_ok pj np s =
     (s < length (SendConN pj) \<and> s < length (SendConIdxStart pj)
      \<and> SendConIdxStart pj ! s + SendConN pj ! s \<le> length (Syns pj)
      \<and> SendConIdxStart pj ! s + SendConN pj ! s \<le> length (SendConIdx pj)
      \<and> SendConIdxStart pj ! s + SendConN pj ! s < 2 ^ 32
      \<and> (\<forall>ci < SendConN pj ! s.
            SendConIdx pj ! (SendConIdxStart pj ! s + ci) < length (GVals pj)
            \<and> (Inhib pj \<or> (SendConIdx pj ! (SendConIdxStart pj ! s + ci) < length (PIdxs pj)
                 \<and> PIdxs pj ! (SendConIdx pj ! (SendConIdxStart pj ! s + ci)) < np))))"

text \<open>What the sender \<open>s\<close> sends to the receiver \<open>ri\<close>: the scaled weights of its
  synapses onto \<open>ri\<close>.\<close>

definition sent :: "Prjn \<Rightarrow> nat \<Rightarrow> nat \<Rightarrow> real" where
  "sent pj s ri =
     sum_list (map (\<lambda>c. GScale pj * Wt (snd c))
       (filter (\<lambda>c. fst c = ri)
          (zip (take (SendConN pj ! s) (drop (SendConIdxStart pj ! s) (SendConIdx pj)))
               (take (SendConN pj ! s) (drop (SendConIdxStart pj ! s) (Syns pj))))))"

text \<open>The raw conductances \<^verbatim>\<open>GRaw\<close> of the receiving neurons, in a result that may be
  a panic.\<close>

definition GRaws :: "(Prjn \<times> real list) option \<Rightarrow> real list option" where
  "GRaws r = map_option (\<lambda>s. map GRaw (GVals (fst s))) r"

subsection \<open>networkbase.go: the conductance buffer of the network\<close>

text \<open>
  The projection and the layer as \<^verbatim>\<open>BuildPrjnGBuf\<close> sees them.  \<open>Com_MaxDelay\<close> is
  \<^verbatim>\<open>pj.Params.Com.MaxDelay\<close>; \<^verbatim>\<open>pj.GBuf\<close> is the window of \<^verbatim>\<open>nt.PrjnGBuf\<close> that
  starts at \<open>GBufSt\<close> (\<^verbatim>\<open>Params.Idxs.GBufSt\<close>) and has \<open>GBufLen\<close> elements, and
  \<^verbatim>\<open>pj.GSyns\<close> is the window of \<^verbatim>\<open>nt.PrjnGSyns\<close> at \<open>GSynSt\<close> with
  \<open>GSynsLen\<close> elements.  \<open>NNeur\<close> is \<^verbatim>\<open>len(ly.Neurons)\<close>.  The other index fields
  that the first loop sets (\<^verbatim>\<open>PrjnIdx\<close>, \<^verbatim>\<open>RecvLay\<close>, \<^verbatim>\<open>RecvNeurSt\<close>, \<dots>) take
  no part in the buffers and are left out.
\<close>

record NPrjn =
  Com_MaxDelay :: nat
  GBufSt :: nat
  GBufLen :: nat
  GSynSt :: nat
  GSynsLen :: nat

record NLayer =
  NNeur :: nat
  RcvPrjns :: "NPrjn list"

text \<open>
  The network: a slice is its backing array (whose length is the capacity) and its
  length.
\<close>

record Net =
  MaxDelay :: nat
  NLayers :: "NLayer list"
  PrjnGBuf :: "int list"
  PrjnGBufLen :: nat
  PrjnGSyns :: "real list"
  PrjnGSynsLen :: nat

text \<open>The first loop: the pair is \<^verbatim>\<open>(nt.MaxDelay, npjneur)\<close>.\<close>

fun MaxDelayPrjns :: "nat \<Rightarrow> NPrjn list \<Rightarrow> nat \<times> nat \<Rightarrow> nat \<times> nat" where
  "MaxDelayPrjns nneur [] acc = acc"
| "MaxDelayPrjns nneur (pj # pjs) acc =
     MaxDelayPrjns nneur pjs
       (if Com_MaxDelay pj > fst acc then Com_MaxDelay pj else fst acc, u32 (snd acc + nneur))"

fun MaxDelayLayers :: "NLayer list \<Rightarrow> nat \<times> nat \<Rightarrow> nat \<times> nat" where
  "MaxDelayLayers [] acc = acc"
| "MaxDelayLayers (ly # lys) acc = MaxDelayLayers lys (MaxDelayPrjns (u32 (NNeur ly)) (RcvPrjns ly) acc)"

text \<open>
  The last loop: the pair is \<^verbatim>\<open>(gbi, gsi)\<close>, \<open>cg\<close> and \<open>cs\<close> are the capacities of
  \<^verbatim>\<open>nt.PrjnGBuf\<close> and \<^verbatim>\<open>nt.PrjnGSyns\<close>.  A slice expression \<^verbatim>\<open>s[lo:hi]\<close> panics
  unless \<^verbatim>\<open>lo <= hi <= cap(s)\<close>.
\<close>

fun AllocPrjns :: "nat \<Rightarrow> nat \<Rightarrow> nat \<Rightarrow> nat \<Rightarrow> NPrjn list \<Rightarrow> nat \<times> nat
    \<Rightarrow> (NPrjn list \<times> nat \<times> nat) option" where
  "AllocPrjns nneur mxlen cg cs [] idx = Some ([], idx)"
| "AllocPrjns nneur mxlen cg cs (pj # pjs) idx =
     (let gbi = fst idx; gsi = snd idx;
          gbs = u32 (nneur * mxlen);
          ghi = u32 (gbi + gbs);
          shi = u32 (gsi + nneur)
      in if gbi \<le> ghi \<and> ghi \<le> cg \<and> gsi \<le> shi \<and> shi \<le> cs then
           (case AllocPrjns nneur mxlen cg cs pjs (ghi, shi) of
              None \<Rightarrow> None
            | Some r \<Rightarrow>
                Some (pj\<lparr>GBufSt := gbi, GBufLen := ghi - gbi, GSynSt := gsi, GSynsLen := shi - gsi\<rparr>
                        # fst r, snd r))
         else None)"

fun AllocLayers :: "nat \<Rightarrow> nat \<Rightarrow> nat \<Rightarrow> NLayer list \<Rightarrow> nat \<times> nat
    \<Rightarrow> (NLayer list \<times> nat \<times> nat) option" where
  "AllocLayers mxlen cg cs [] idx = Some ([], idx)"
| "AllocLayers mxlen cg cs (ly # lys) idx =
     (case AllocPrjns (u32 (NNeur ly)) mxlen cg cs (RcvPrjns ly) idx of
        None \<Rightarrow> None
      | Some r \<Rightarrow>
          (case AllocLayers mxlen cg cs lys (snd r) of
             None \<Rightarrow> None
           | Some r2 \<Rightarrow> Some (ly\<lparr>RcvPrjns := fst r\<rparr> # fst r2, snd r2)))"

definition BuildPrjnGBuf :: "Net \<Rightarrow> Net option" where
  "BuildPrjnGBuf nt =
     (let md = MaxDelayLayers (NLayers nt) (0, 0);
          npjneur = snd md;
          mxlen = u32 (fst md + 1);
          gbsz = u32 (npjneur * mxlen);
          gbuf = (if u32 (length (PrjnGBuf nt)) \<ge> gbsz then PrjnGBuf nt else replicate gbsz 0);
          gsyns = (if u32 (length (PrjnGSyns nt)) \<ge> npjneur then PrjnGSyns nt
                   else replicate npjneur 0)
      in case AllocLayers mxlen (length gbuf) (length gsyns) (NLayers nt) (0, 0) of
           None \<Rightarrow> None
         | Some r \<Rightarrow>
             Some (nt\<lparr>MaxDelay := fst md, NLayers := fst r, PrjnGBuf := gbuf, PrjnGBufLen := gbsz,
                       PrjnGSyns := gsyns, PrjnGSynsLen := npjneur\<rparr>))"

text \<open>
  For the statement of the claim: the largest \<^verbatim>\<open>MaxDelay\<close> of the projections that
  a layer receives, the largest of the whole network, and the number of pairs of a
  receiving projection and a neuron of its layer.
\<close>

definition layer_max_delay :: "NLayer \<Rightarrow> nat" where
  "layer_max_delay ly = foldr max (map Com_MaxDelay (RcvPrjns ly)) 0"

definition net_max_delay :: "NLayer list \<Rightarrow> nat" where
  "net_max_delay lys = foldr max (map layer_max_delay lys) 0"

definition prjn_neurons :: "NLayer list \<Rightarrow> nat" where
  "prjn_neurons lys = sum_list (map (\<lambda>ly. length (RcvPrjns ly) * NNeur ly) lys)"

text \<open>The sizes fit a \<^verbatim>\<open>uint32\<close>.\<close>

definition net_fits :: "Net \<Rightarrow> bool" where
  "net_fits nt =
     ((\<forall>ly \<in> set (NLayers nt). NNeur ly < 2 ^ 32)
      \<and> net_max_delay (NLayers nt) + 1 < 2 ^ 32
      \<and> prjn_neurons (NLayers nt) * (net_max_delay (NLayers nt) + 1) < 2 ^ 32)"

text \<open>The ring-buffer sizes of the projections of the network that was built, by layer.\<close>

definition GBufLens :: "Net option \<Rightarrow> nat list list option" where
  "GBufLens r = map_option (\<lambda>nt. map (\<lambda>ly. map GBufLen (RcvPrjns ly)) (NLayers nt)) r"

text \<open>Test data: two layers of one neuron, each with one receiving projection, of delays
  1 and 3.\<close>

definition toy_gnet :: Net where
  "toy_gnet = \<lparr>MaxDelay = 0,
     NLayers = [\<lparr>NNeur = 1, RcvPrjns = [\<lparr>Com_MaxDelay = 1, GBufSt = 0, GBufLen = 0, GSynSt = 0, GSynsLen = 0\<rparr>]\<rparr>,
                \<lparr>NNeur = 1, RcvPrjns = [\<lparr>Com_MaxDelay = 3, GBufSt = 0, GBufLen = 0, GSynSt = 0, GSynsLen = 0\<rparr>]\<rparr>],
     PrjnGBuf = [], PrjnGBufLen = 0, PrjnGSyns = [], PrjnGSynsLen = 0\<rparr>"

subsection \<open>prjn.go: synaptic calcium\<close>

text \<open>
  The fields of \<^verbatim>\<open>Neuron\<close> that the two passes read (\<open>NSpike\<close> is \<^verbatim>\<open>Spike\<close>),
  and \<^verbatim>\<open>int32\<close> arithmetic on \<^verbatim>\<open>ctime.CycleTot\<close>.
\<close>

record CaNeuron =
  NSpike :: real
  CaSpkP :: real
  CaSpkD :: real
  CaSyn :: real

definition i32 :: "int \<Rightarrow> int" where
  "i32 x = (x + 2 ^ 31) mod 2 ^ 32 - 2 ^ 31"

text \<open>
  What both passes do to a synapse that they reach, with the calcium \<open>ca\<close> of the
  pair of neurons.  \<open>cur\<close> and \<open>fm\<close> are \<^verbatim>\<open>kp.CurCa\<close> and \<^verbatim>\<open>kp.FmCa\<close> of the
  package kinase (not among the sources), as functions of the triple
  \<^verbatim>\<open>(CaM, CaP, CaD)\<close> that they update in place.
\<close>

type_synonym ca3 = "real \<times> real \<times> real"

definition SynCaSyn :: "(int \<Rightarrow> int \<Rightarrow> ca3 \<Rightarrow> ca3) \<Rightarrow> (real \<Rightarrow> ca3 \<Rightarrow> ca3) \<Rightarrow> int \<Rightarrow> real
    \<Rightarrow> Synapse \<Rightarrow> Synapse" where
  "SynCaSyn cur fm cycTot ca sy =
     (let supt = CaUpT sy
      in if supt = cycTot then sy
         else
           (let c1 = cur (i32 (cycTot - 1)) supt (CaM sy, CaP sy, CaD sy);
                c2 = fm ca c1
            in sy\<lparr>CaUpT := cycTot, Ca := ca, CaM := fst c2, CaP := fst (snd c2), CaD := snd (snd c2)\<rparr>))"

definition below_thr :: "Prjn \<Rightarrow> CaNeuron \<Rightarrow> bool" where
  "below_thr pj nrn = (CaSpkP nrn < UpdtThr pj \<and> CaSpkD nrn < UpdtThr pj)"

text \<open>
  The inner loop of \<^verbatim>\<open>SendSynCa\<close> over the synapses \<^verbatim>\<open>pj.Syns[st : st+nc]\<close> of a
  sender: \<open>scons\<close> are the receivers that are left, \<open>k\<close> is the index of the synapse
  in \<^verbatim>\<open>pj.Syns\<close>.
\<close>

fun SendSynCaLoop :: "(int \<Rightarrow> int \<Rightarrow> ca3 \<Rightarrow> ca3) \<Rightarrow> (real \<Rightarrow> ca3 \<Rightarrow> ca3) \<Rightarrow> int \<Rightarrow> Prjn
    \<Rightarrow> CaNeuron list \<Rightarrow> real \<Rightarrow> nat list \<Rightarrow> nat \<Rightarrow> Synapse list \<Rightarrow> Synapse list option" where
  "SendSynCaLoop cur fm cycTot pj rneur snCaSyn [] k syns = Some syns"
| "SendSynCaLoop cur fm cycTot pj rneur snCaSyn (ri # scons) k syns =
     (case ixn rneur ri of
        None \<Rightarrow> None
      | Some rn \<Rightarrow>
          if below_thr pj rn then SendSynCaLoop cur fm cycTot pj rneur snCaSyn scons (Suc k) syns
          else SendSynCaLoop cur fm cycTot pj rneur snCaSyn scons (Suc k)
                 (syns[k := SynCaSyn cur fm cycTot (snCaSyn * CaSyn rn) (syns ! k)]))"

text \<open>The outer loop over the neurons of the sending layer; \<open>si\<close> is the loop index.\<close>

fun SendSynCaNeurons :: "(int \<Rightarrow> int \<Rightarrow> ca3 \<Rightarrow> ca3) \<Rightarrow> (real \<Rightarrow> ca3 \<Rightarrow> ca3) \<Rightarrow> int \<Rightarrow> Prjn
    \<Rightarrow> CaNeuron list \<Rightarrow> real \<Rightarrow> CaNeuron list \<Rightarrow> nat \<Rightarrow> Synapse list \<Rightarrow> Synapse list option" where
  "SendSynCaNeurons cur fm cycTot pj rneur ssg [] si syns = Some syns"
| "SendSynCaNeurons cur fm cycTot pj rneur ssg (sn # sneur) si syns =
     (if NSpike sn = 0 then SendSynCaNeurons cur fm cycTot pj rneur ssg sneur (Suc si) syns
      else if below_thr pj sn then SendSynCaNeurons cur fm cycTot pj rneur ssg sneur (Suc si) syns
      else
        (case ixn (SendConN pj) si of
           None \<Rightarrow> None
         | Some nc \<Rightarrow>
        (case ixn (SendConIdxStart pj) si of
           None \<Rightarrow> None
         | Some st \<Rightarrow>
             if st + nc \<le> length syns then
               (case slice (SendConIdx pj) st (st + nc) of
                  None \<Rightarrow> None
                | Some scons \<Rightarrow>
                    (case SendSynCaLoop cur fm cycTot pj rneur (ssg * CaSyn sn) scons st syns of
                       None \<Rightarrow> None
                     | Some syns1 \<Rightarrow>
                         SendSynCaNeurons cur fm cycTot pj rneur ssg sneur (Suc si) syns1))
             else None)))"

text \<open>
  \<^verbatim>\<open>SendSynCa\<close>: \<open>sneur\<close> and \<open>rneur\<close> are the neurons of the sending and of the
  receiving layer, \<open>synSpkG\<close> is \<^verbatim>\<open>slay.Params.Learn.CaSpk.SynSpkG\<close>.
\<close>

definition SendSynCa :: "(int \<Rightarrow> int \<Rightarrow> ca3 \<Rightarrow> ca3) \<Rightarrow> (real \<Rightarrow> ca3 \<Rightarrow> ca3) \<Rightarrow> int \<Rightarrow> real
    \<Rightarrow> CaNeuron list \<Rightarrow> CaNeuron list \<Rightarrow> Prjn \<Rightarrow> Prjn option" where
  "SendSynCa cur fm cycTot synSpkG sneur rneur pj =
     (if \<not> Learn pj then Some pj
      else
        (case SendSynCaNeurons cur fm cycTot pj rneur (SpikeG pj * synSpkG) sneur 0 (Syns pj) of
           None \<Rightarrow> None
         | Some syns \<Rightarrow> Some (pj\<lparr>Syns := syns\<rparr>)))"

text \<open>
  The inner loop of \<^verbatim>\<open>RecvSynCa\<close> over the pairs of \<^verbatim>\<open>rsidxs\<close> and \<^verbatim>\<open>rcons\<close>
  of a receiver: the index \<open>rsi\<close> of the synapse in \<^verbatim>\<open>pj.Syns\<close> and its sender.
\<close>

fun RecvSynCaLoop :: "(int \<Rightarrow> int \<Rightarrow> ca3 \<Rightarrow> ca3) \<Rightarrow> (real \<Rightarrow> ca3 \<Rightarrow> ca3) \<Rightarrow> int \<Rightarrow> Prjn
    \<Rightarrow> CaNeuron list \<Rightarrow> real \<Rightarrow> (nat \<times> nat) list \<Rightarrow> Synapse list \<Rightarrow> Synapse list option" where
  "RecvSynCaLoop cur fm cycTot pj sneur rnCaSyn [] syns = Some syns"
| "RecvSynCaLoop cur fm cycTot pj sneur rnCaSyn (c # rest) syns =
     (case ixn sneur (snd c) of
        None \<Rightarrow> None
      | Some sn \<Rightarrow>
          if below_thr pj sn then RecvSynCaLoop cur fm cycTot pj sneur rnCaSyn rest syns
          else if fst c < length syns then
            RecvSynCaLoop cur fm cycTot pj sneur rnCaSyn rest
              (syns[fst c := SynCaSyn cur fm cycTot (CaSyn sn * rnCaSyn) (syns ! fst c)])
          else None)"

fun RecvSynCaNeurons :: "(int \<Rightarrow> int \<Rightarrow> ca3 \<Rightarrow> ca3) \<Rightarrow> (real \<Rightarrow> ca3 \<Rightarrow> ca3) \<Rightarrow> int \<Rightarrow> Prjn
    \<Rightarrow> CaNeuron list \<Rightarrow> real \<Rightarrow> CaNeuron list \<Rightarrow> nat \<Rightarrow> Synapse list \<Rightarrow> Synapse list option" where
  "RecvSynCaNeurons cur fm cycTot pj sneur ssg [] ri syns = Some syns"
| "RecvSynCaNeurons cur fm cycTot pj sneur ssg (rn # rneur) ri syns =
     (if NSpike rn = 0 then RecvSynCaNeurons cur fm cycTot pj sneur ssg rneur (Suc ri) syns
      else if below_thr pj rn then RecvSynCaNeurons cur fm cycTot pj sneur ssg rneur (Suc ri) syns
      else
        (case ixn (RecvConN pj) ri of
           None \<Rightarrow> None
         | Some nc \<Rightarrow>
        (case ixn (RecvConIdxStart pj) ri of
           None \<Rightarrow> None
         | Some st \<Rightarrow>
        (case slice (RecvSynIdx pj) st (st + nc) of
           None \<Rightarrow> None
         | Some rsidxs \<Rightarrow>
        (case slice (RecvConIdx pj) st (st + nc) of
           None \<Rightarrow> None
         | Some rcons \<Rightarrow>
             (case RecvSynCaLoop cur fm cycTot pj sneur (ssg * CaSyn rn) (zip rsidxs rcons) syns of
                None \<Rightarrow> None
              | Some syns1 \<Rightarrow>
                  RecvSynCaNeurons cur fm cycTot pj sneur ssg rneur (Suc ri) syns1))))))"

definition RecvSynCa :: "(int \<Rightarrow> int \<Rightarrow> ca3 \<Rightarrow> ca3) \<Rightarrow> (real \<Rightarrow> ca3 \<Rightarrow> ca3) \<Rightarrow> int \<Rightarrow> real
    \<Rightarrow> CaNeuron list \<Rightarrow> CaNeuron list \<Rightarrow> Prjn \<Rightarrow> Prjn option" where
  "RecvSynCa cur fm cycTot synSpkG sneur rneur pj =
     (if \<not> Learn pj then Some pj
      else
        (case RecvSynCaNeurons cur fm cycTot pj sneur (SpikeG pj * synSpkG) rneur 0 (Syns pj) of
           None \<Rightarrow> None
         | Some syns \<Rightarrow> Some (pj\<lparr>Syns := syns\<rparr>)))"

text \<open>
  For the statement of the claim.  One advance of the calcium cascade of a synapse in
  cycle \<open>cycTot\<close> with calcium \<open>ca\<close>: the cascade is brought up to the cycle before by
  \<open>cur\<close>, from the cycle the synapse was last updated in, and \<open>fm\<close> adds \<open>ca\<close>.
  \<open>at_most_once\<close>: the synapse \<open>sy\<close> is the synapse \<open>sy0\<close> as it was, or \<open>sy0\<close>
  after one advance.
\<close>

definition advance :: "(int \<Rightarrow> int \<Rightarrow> ca3 \<Rightarrow> ca3) \<Rightarrow> (real \<Rightarrow> ca3 \<Rightarrow> ca3) \<Rightarrow> int \<Rightarrow> real
    \<Rightarrow> Synapse \<Rightarrow> Synapse" where
  "advance cur fm cycTot ca sy =
     (let c2 = fm ca (cur (i32 (cycTot - 1)) (CaUpT sy) (CaM sy, CaP sy, CaD sy))
      in sy\<lparr>CaUpT := cycTot, Ca := ca, CaM := fst c2, CaP := fst (snd c2), CaD := snd (snd c2)\<rparr>)"

definition at_most_once :: "(int \<Rightarrow> int \<Rightarrow> ca3 \<Rightarrow> ca3) \<Rightarrow> (real \<Rightarrow> ca3 \<Rightarrow> ca3) \<Rightarrow> int
    \<Rightarrow> Synapse \<Rightarrow> Synapse \<Rightarrow> bool" where
  "at_most_once cur fm cycTot sy0 sy =
     (sy = sy0 \<or> (CaUpT sy0 \<noteq> cycTot \<and> (\<exists>ca. sy = advance cur fm cycTot ca sy0)))"

text \<open>Test data: neurons that spike, and a calcium cascade that counts its advances in
  \<^verbatim>\<open>CaM\<close>.\<close>

definition spiking :: CaNeuron where
  "spiking = \<lparr>NSpike = 1, CaSpkP = 1, CaSpkD = 1, CaSyn = 1\<rparr>"

definition toy_cur :: "int \<Rightarrow> int \<Rightarrow> ca3 \<Rightarrow> ca3" where
  "toy_cur t supt c = c"

definition toy_fm :: "real \<Rightarrow> ca3 \<Rightarrow> ca3" where
  "toy_fm ca c = (fst c + 1, fst (snd c) + ca, snd (snd c))"

text \<open>
  The invariant of the passes of one cycle, for the proofs: against the synapses \<open>s0\<close>
  at the start of the cycle every synapse has advanced at most once, and against the
  synapses \<open>sA\<close> at the start of a pass every synapse that bore the stamp of the cycle
  is as it was.
\<close>

definition ca_inv :: "(int \<Rightarrow> int \<Rightarrow> ca3 \<Rightarrow> ca3) \<Rightarrow> (real \<Rightarrow> ca3 \<Rightarrow> ca3) \<Rightarrow> int
    \<Rightarrow> Synapse list \<Rightarrow> Synapse list \<Rightarrow> Synapse list \<Rightarrow> bool" where
  "ca_inv cur fm cycTot s0 sA syns =
     (length s0 = length syns \<and> length sA = length syns
      \<and> (\<forall>i < length syns. at_most_once cur fm cycTot (s0 ! i) (syns ! i))
      \<and> (\<forall>i < length syns. CaUpT (sA ! i) = cycTot \<longrightarrow> syns ! i = sA ! i))"

subsection \<open>prjn.go: the weights file of a projection\<close>

text \<open>
  Modelled from the spec: \<^verbatim>\<open>weights.Prjn\<close> and \<^verbatim>\<open>weights.Recv\<close> (package
  emergent/weights) are not among the sources.  The spec has the weights of a projection
  as a ``per-receiving-neuron list of (sender index, weight, structural weight)'': the
  fields are those that \<^verbatim>\<open>Prjn.WriteWtsJSON\<close> writes and \<^verbatim>\<open>Prjn.SetWts\<close> reads,
  \<open>Recv_Wt1\<close> the structural weights.  \<open>Prjn_MetaGScale\<close> is the entry
  \<^verbatim>\<open>MetaData["GScale"]\<close> as a number, \<open>None\<close> when there is none.
\<close>

record WtsRecv =
  Recv_Ri :: int
  Recv_N :: int
  Recv_Si :: "int list"
  Recv_Wt :: "real list"
  Recv_Wt1 :: "real list"

record WtsPrjn =
  Prjn_From :: string
  Prjn_MetaGScale :: "real option"
  Prjn_Rs :: "WtsRecv list"

text \<open>
  \<^verbatim>\<open>SetVarByIndex\<close> writes the \<^verbatim>\<open>float32\<close> at byte \<^verbatim>\<open>SynapseVarStart + 4*idx\<close>
  of the struct (see \<open>VarByIndex\<close>).
\<close>

definition SetVarByIndex :: "Synapse \<Rightarrow> nat \<Rightarrow> real \<Rightarrow> Synapse" where
  "SetVarByIndex sy idx val =
     (if idx = 0 then sy\<lparr>Wt := val\<rparr>
      else if idx = 1 then sy\<lparr>LWt := val\<rparr>
      else if idx = 2 then sy\<lparr>SWt := val\<rparr>
      else if idx = 3 then sy\<lparr>DWt := val\<rparr>
      else if idx = 4 then sy\<lparr>DSWt := val\<rparr>
      else if idx = 5 then sy\<lparr>Ca := val\<rparr>
      else if idx = 6 then sy\<lparr>CaM := val\<rparr>
      else if idx = 7 then sy\<lparr>CaP := val\<rparr>
      else if idx = 8 then sy\<lparr>CaD := val\<rparr>
      else if idx = 9 then sy\<lparr>Syn_Tr := val\<rparr>
      else sy\<lparr>Syn_DTr := val\<rparr>)"

text \<open>
  \<^verbatim>\<open>SetSynVal\<close>.  \<open>lwt\<close> is \<^verbatim>\<open>pj.Params.SWt.LWtFmWts\<close> (learn.go, not among the
  sources).  The result is the projection and whether an error is returned; \<open>None\<close>
  is a panic of \<^verbatim>\<open>SynIdx\<close>.
\<close>

definition SetSynVal :: "(real \<Rightarrow> real \<Rightarrow> real) \<Rightarrow> Prjn \<Rightarrow> string \<Rightarrow> int \<Rightarrow> int \<Rightarrow> real
    \<Rightarrow> (Prjn \<times> bool) option" where
  "SetSynVal lwt pj varNm sidx ridx val =
     (case SynapseVarByName varNm of
        None \<Rightarrow> Some (pj, True)
      | Some vidx \<Rightarrow>
          (case SynIdx pj sidx ridx of
             None \<Rightarrow> None
           | Some synIdx \<Rightarrow>
               if synIdx < 0 \<or> synIdx \<ge> int (length (Syns pj)) then Some (pj, False)
               else
                 (let sy = SetVarByIndex (Syns pj ! nat synIdx) (nat vidx) val;
                      sy1 = (if varNm = ''Wt''
                             then (let sy2 = (if SWt sy = 0 then sy\<lparr>SWt := Wt sy\<rparr> else sy)
                                   in sy2\<lparr>LWt := lwt (Wt sy2) (SWt sy2)\<rparr>)
                             else sy)
                  in Some (pj\<lparr>Syns := (Syns pj)[nat synIdx := sy1]\<rparr>, False))))"

text \<open>
  \<^verbatim>\<open>WriteWtsJSON\<close> writes a text, which \<^verbatim>\<open>weights.PrjnReadJSON\<close> (emergent/weights)
  decodes; the model gives the decoded value of the text.  \<open>rt x\<close> is the \<^verbatim>\<open>float32\<close>
  that is read back from the text
  \<^verbatim>\<open>strconv.FormatFloat(float64(x), 'g', weights.Prec, 32)\<close>, with
  \<^verbatim>\<open>weights.Prec\<close> a variable of emergent/weights.

  The loops over \<^verbatim>\<open>ci\<close> of one receiver: \<open>k\<close> is \<^verbatim>\<open>st+ci\<close>, \<open>n\<close> counts the
  passes that are left.
\<close>

fun WriteSiLoop :: "Prjn \<Rightarrow> nat \<Rightarrow> nat \<Rightarrow> int list option" where
  "WriteSiLoop pj k 0 = Some []"
| "WriteSiLoop pj k (Suc n) =
     (case ixn (RecvConIdx pj) k of
        None \<Rightarrow> None
      | Some si \<Rightarrow>
          (case WriteSiLoop pj (Suc k) n of
             None \<Rightarrow> None
           | Some sis \<Rightarrow> Some (int si # sis)))"

fun WriteWtLoop :: "(Synapse \<Rightarrow> real) \<Rightarrow> Prjn \<Rightarrow> nat \<Rightarrow> nat \<Rightarrow> real list option" where
  "WriteWtLoop f pj k 0 = Some []"
| "WriteWtLoop f pj k (Suc n) =
     (case ixn (RecvSynIdx pj) k of
        None \<Rightarrow> None
      | Some rsi \<Rightarrow>
          (case ixn (Syns pj) rsi of
             None \<Rightarrow> None
           | Some sy \<Rightarrow>
               (case WriteWtLoop f pj (Suc k) n of
                  None \<Rightarrow> None
                | Some ws \<Rightarrow> Some (f sy # ws))))"

text \<open>The loop over the receivers: \<open>ri\<close> is the loop variable, \<open>n\<close> is \<^verbatim>\<open>nr - ri\<close>.\<close>

fun WriteRsLoop :: "(real \<Rightarrow> real) \<Rightarrow> Prjn \<Rightarrow> nat \<Rightarrow> nat \<Rightarrow> WtsRecv list option" where
  "WriteRsLoop rt pj ri 0 = Some []"
| "WriteRsLoop rt pj ri (Suc n) =
     (case ixn (RecvConN pj) ri of
        None \<Rightarrow> None
      | Some nc \<Rightarrow>
     (case ixn (RecvConIdxStart pj) ri of
        None \<Rightarrow> None
      | Some st \<Rightarrow>
     (case WriteSiLoop pj st nc of
        None \<Rightarrow> None
      | Some sis \<Rightarrow>
     (case WriteWtLoop (\<lambda>sy. rt (Wt sy)) pj st nc of
        None \<Rightarrow> None
      | Some ws \<Rightarrow>
     (case WriteWtLoop (\<lambda>sy. rt (SWt sy)) pj st nc of
        None \<Rightarrow> None
      | Some ws1 \<Rightarrow>
     (case WriteRsLoop rt pj (Suc ri) n of
        None \<Rightarrow> None
      | Some rs \<Rightarrow>
          Some (\<lparr>Recv_Ri = int ri, Recv_N = int nc, Recv_Si = sis, Recv_Wt = ws, Recv_Wt1 = ws1\<rparr>
                # rs)))))))"

text \<open>
  \<^verbatim>\<open>Prjn.WriteWtsJSON\<close>: \<open>nr\<close> is \<^verbatim>\<open>len(rlay.Neurons)\<close> and \<open>nm\<close> is
  \<^verbatim>\<open>slay.Name()\<close>.  \<^verbatim>\<open>GScale\<close> is written with \<^verbatim>\<open>%g\<close>, the shortest text that
  reads back as the same \<^verbatim>\<open>float32\<close>.
\<close>

definition Prjn_WriteWtsJSON :: "(real \<Rightarrow> real) \<Rightarrow> nat \<Rightarrow> string \<Rightarrow> Prjn \<Rightarrow> WtsPrjn option" where
  "Prjn_WriteWtsJSON rt nr nm pj =
     (case WriteRsLoop rt pj 0 nr of
        None \<Rightarrow> None
      | Some rs \<Rightarrow> Some \<lparr>Prjn_From = nm, Prjn_MetaGScale = Some (GScale pj), Prjn_Rs = rs\<rparr>)"

text \<open>
  \<^verbatim>\<open>Prjn.SetWts\<close>.  The loop over \<^verbatim>\<open>pr.Si\<close>: \<open>ss\<close> are the entries that are left,
  \<open>si\<close> is the loop index, \<open>err\<close> is whether \<^verbatim>\<open>err\<close> is set.
\<close>

fun SetWtsSiLoop :: "(real \<Rightarrow> real \<Rightarrow> real) \<Rightarrow> WtsRecv \<Rightarrow> int list \<Rightarrow> nat \<Rightarrow> Prjn \<Rightarrow> bool
    \<Rightarrow> (Prjn \<times> bool) option" where
  "SetWtsSiLoop lwt pr [] si pj err = Some (pj, err)"
| "SetWtsSiLoop lwt pr (s # ss) si pj err =
     (case (if length (Recv_Wt1 pr) \<ge> length (Recv_Si pr)
            then (case ixn (Recv_Wt1 pr) si of
                    None \<Rightarrow> None
                  | Some w1 \<Rightarrow> SetSynVal lwt pj ''SWt'' s (Recv_Ri pr) w1)
            else Some (pj, False)) of
        None \<Rightarrow> None
      | Some (pj1, er1) \<Rightarrow>
          (case ixn (Recv_Wt pr) si of
             None \<Rightarrow> None
           | Some w \<Rightarrow>
               (case SetSynVal lwt pj1 ''Wt'' s (Recv_Ri pr) w of
                  None \<Rightarrow> None
                | Some (pj2, er2) \<Rightarrow> SetWtsSiLoop lwt pr ss (Suc si) pj2 (err \<or> er1 \<or> er2))))"

fun SetWtsRsLoop :: "(real \<Rightarrow> real \<Rightarrow> real) \<Rightarrow> WtsRecv list \<Rightarrow> Prjn \<Rightarrow> bool
    \<Rightarrow> (Prjn \<times> bool) option" where
  "SetWtsRsLoop lwt [] pj err = Some (pj, err)"
| "SetWtsRsLoop lwt (pr # prs) pj err =
     (case SetWtsSiLoop lwt pr (Recv_Si pr) 0 pj err of
        None \<Rightarrow> None
      | Some (pj1, err1) \<Rightarrow> SetWtsRsLoop lwt prs pj1 err1)"

definition Prjn_SetWts :: "(real \<Rightarrow> real \<Rightarrow> real) \<Rightarrow> Prjn \<Rightarrow> WtsPrjn \<Rightarrow> (Prjn \<times> bool) option" where
  "Prjn_SetWts lwt pj pw =
     SetWtsRsLoop lwt (Prjn_Rs pw)
       (case Prjn_MetaGScale pw of None \<Rightarrow> pj | Some gs \<Rightarrow> pj\<lparr>GScale := gs\<rparr>) False"

text \<open>
  For the statement of the claim.  Saving the projection \<open>pj\<close> and loading the file
  into the projection \<open>pj1\<close>.
\<close>

definition SaveLoad :: "(real \<Rightarrow> real) \<Rightarrow> (real \<Rightarrow> real \<Rightarrow> real) \<Rightarrow> nat \<Rightarrow> string \<Rightarrow> Prjn \<Rightarrow> Prjn
    \<Rightarrow> (Prjn \<times> bool) option" where
  "SaveLoad rt lwt nr nm pj pj1 =
     (case Prjn_WriteWtsJSON rt nr nm pj of
        None \<Rightarrow> None
      | Some pw \<Rightarrow> Prjn_SetWts lwt pj1 pw)"

text \<open>
  The two sides of the connectivity agree for \<open>nr\<close> receivers: the blocks of the
  receivers lie inside the arrays, the entry of a receiver for a sender names a synapse,
  which is the one that \<^verbatim>\<open>SynIdx\<close> finds from the sender, and every synapse is the
  entry of some receiver.
\<close>

definition recv_entry :: "Prjn \<Rightarrow> nat \<Rightarrow> nat \<Rightarrow> nat" where
  "recv_entry pj ri ci = RecvConIdxStart pj ! ri + ci"

definition con_ok :: "Prjn \<Rightarrow> nat \<Rightarrow> bool" where
  "con_ok pj nr =
     (nr \<le> length (RecvConN pj) \<and> nr \<le> length (RecvConIdxStart pj)
      \<and> (\<forall>ri < nr. \<forall>ci < RecvConN pj ! ri.
            recv_entry pj ri ci < length (RecvConIdx pj)
          \<and> recv_entry pj ri ci < length (RecvSynIdx pj)
          \<and> RecvSynIdx pj ! recv_entry pj ri ci < length (Syns pj)
          \<and> SynIdx pj (int (RecvConIdx pj ! recv_entry pj ri ci)) (int ri)
              = Some (int (RecvSynIdx pj ! recv_entry pj ri ci)))
      \<and> (\<forall>k < length (Syns pj). \<exists>ri < nr. \<exists>ci < RecvConN pj ! ri.
            RecvSynIdx pj ! recv_entry pj ri ci = k))"

text \<open>The projection \<open>pj1\<close> has the sender-side connectivity of \<open>pj\<close>.\<close>

definition same_send :: "Prjn \<Rightarrow> Prjn \<Rightarrow> bool" where
  "same_send pj1 pj =
     (SendConN pj1 = SendConN pj \<and> SendConIdxStart pj1 = SendConIdxStart pj
      \<and> SendConIdx pj1 = SendConIdx pj \<and> length (Syns pj1) = length (Syns pj))"

text \<open>
  For the proofs.  \<open>loaded lwt w w1 sy\<close> is the synapse \<open>sy\<close> after \<^verbatim>\<open>SetWts\<close> has
  set the structural weight \<open>w1\<close> and then the weight \<open>w\<close> of the file;
  \<open>restored W W1 syns k\<close>: the synapse \<open>k\<close> has the weight \<open>W k\<close> and the structural
  weight that comes from \<open>W1 k\<close>; \<open>recv_of rt pj ri\<close> is what the file has for the
  receiver \<open>ri\<close>.
\<close>

definition loaded :: "(real \<Rightarrow> real \<Rightarrow> real) \<Rightarrow> real \<Rightarrow> real \<Rightarrow> Synapse \<Rightarrow> Synapse" where
  "loaded lwt w w1 sy =
     (if w1 = 0 then sy\<lparr>Wt := w, SWt := w, LWt := lwt w w\<rparr>
      else sy\<lparr>Wt := w, SWt := w1, LWt := lwt w w1\<rparr>)"

definition restored :: "(nat \<Rightarrow> real) \<Rightarrow> (nat \<Rightarrow> real) \<Rightarrow> Synapse list \<Rightarrow> nat \<Rightarrow> bool" where
  "restored W W1 syns k =
     (Wt (syns ! k) = W k \<and> SWt (syns ! k) = (if W1 k = 0 then W k else W1 k))"

definition recv_of :: "(real \<Rightarrow> real) \<Rightarrow> Prjn \<Rightarrow> nat \<Rightarrow> WtsRecv" where
  "recv_of rt pj ri =
     \<lparr>Recv_Ri = int ri, Recv_N = int (RecvConN pj ! ri),
      Recv_Si = map (\<lambda>ci. int (RecvConIdx pj ! recv_entry pj ri ci)) [0..<RecvConN pj ! ri],
      Recv_Wt = map (\<lambda>ci. rt (Wt (Syns pj ! (RecvSynIdx pj ! recv_entry pj ri ci))))
                  [0..<RecvConN pj ! ri],
      Recv_Wt1 = map (\<lambda>ci. rt (SWt (Syns pj ! (RecvSynIdx pj ! recv_entry pj ri ci))))
                   [0..<RecvConN pj ! ri]\<rparr>"

text \<open>Test data: a text that reads back as written, and a linear weight.\<close>

definition toy_rt :: "real \<Rightarrow> real" where
  "toy_rt x = x"

definition toy_lwt :: "real \<Rightarrow> real \<Rightarrow> real" where
  "toy_lwt wt swt = 1 / 2"

definition zero_swt_prjn :: Prjn where
  "zero_swt_prjn = toy_prjn\<lparr>Syns := [syn0\<lparr>SWt := 0\<rparr>, syn0\<lparr>Wt := 2\<rparr>, syn0\<lparr>Wt := 3\<rparr>, syn0\<lparr>Wt := 4\<rparr>]\<rparr>"

section \<open>Theorems\<close>

subsection \<open>Negative conductances\<close>

lemma GeNoiseUpd_Ge:
  "Ge (GeNoiseUpd ac r nrn)
     = Ge nrn + (if noise_ge_active ac
                 then GeSynFmRaw (Dt ac) (GeNoise nrn) (fst (PGe (Noise ac) r (GeNoiseP nrn)))
                 else 0)"
  by (simp add: GeNoiseUpd_def Let_def split: prod.splits)

lemma GeNoiseUpd_GeNoise:
  "GeNoise (GeNoiseUpd ac r nrn)
     = (if noise_ge_active ac
        then GeSynFmRaw (Dt ac) (GeNoise nrn) (fst (PGe (Noise ac) r (GeNoiseP nrn)))
        else GeNoise nrn)"
  by (simp add: GeNoiseUpd_def Let_def split: prod.splits)

text \<open>
  Claim C9, as the code has it.  \<^verbatim>\<open>GeFmSyn\<close> sets \<^verbatim>\<open>nrn.Ge\<close> to the sum of the
  synaptic conductance (after the external clamp and the attentional modulation) and the
  extra conductance, or to 0 when that sum is negative, and only then calls
  \<^verbatim>\<open>GeNoise\<close>, which adds the updated \<^verbatim>\<open>nrn.GeNoise\<close> when the noise is active.
  \<^verbatim>\<open>GiFmSyn\<close> returns 0 for a negative conductance and the conductance itself
  otherwise.
\<close>

theorem conductance_clamp_precedes_noise:
  "(let ext = Ext nrn * Clamp_Ge (Clamp ac);
        g = (if HasExt nrn \<and> \<not> Clamp_Add (Clamp ac) then ext
             else ModVal (Attn ac) (if HasExt nrn then geSyn + ext else geSyn) (NAttn nrn) + geExt);
        noise = (if noise_ge_active ac
                 then GeSynFmRaw (Dt ac) (GeNoise nrn) (fst (PGe (Noise ac) r (GeNoiseP nrn)))
                 else 0)
    in Ge (GeFmSyn ac r nrn geSyn geExt) = max 0 g + noise
     \<and> GeNoise (GeFmSyn ac r nrn geSyn geExt) = (if noise_ge_active ac then noise else GeNoise nrn))
   \<and> snd (GiFmSyn ac r nrn giSyn) = max 0 giSyn"
proof -
  have gi: "snd (GiFmSyn ac r nrn giSyn) = max 0 giSyn"
    by (simp add: GiFmSyn_def max_def)
  show ?thesis
    unfolding Let_def
    by (intro conjI gi)
       (simp_all add: GeFmSyn_def GeNoiseUpd_Ge GeNoiseUpd_GeNoise Let_def max_def)
qed

theorem conductance_clamp_precedes_noise_witness:
  "Ge (GeFmSyn dflt_ac 0 rest_nrn (-2) 0) = 0 \<and> snd (GiFmSyn dflt_ac 0 rest_nrn (-1)) = 0
   \<and> \<not> noise_ge_active dflt_ac"
  using conductance_clamp_precedes_noise[of rest_nrn dflt_ac "-2" 0 0 "-1"]
  by (simp add: noise_ge_active_def dflt_ac_def rest_nrn_def ModVal_def Let_def)

text \<open>
  Claim C9 as stated fails: with the noise on and a negative noise conductance (an
  out-of-range parameter), the \<^verbatim>\<open>Ge\<close> that \<^verbatim>\<open>GeFmSyn\<close> leaves in the neuron
  is negative, although the synaptic input is 0.
\<close>

theorem GeFmSyn_negative_counterexample:
  "Ge (GeFmSyn neg_noise_ac 0 rest_nrn 0 0) = -1"
  by (simp add: GeFmSyn_def GeNoiseUpd_def noise_ge_active_def PGe_def GeSynFmRaw_def ModVal_def
      neg_noise_ac_def dflt_ac_def rest_nrn_def Let_def)

subsection \<open>Membrane potential\<close>

lemma lg2_bounds:
  assumes "0 < x"
  shows "pow2 (lg2 x) \<le> x \<and> x < pow2 (lg2 x + 1)"
proof (cases "x \<ge> 1")
  case True
  define n where "n = nat \<lfloor>x\<rfloor>"
  define k where "k = floorlog 2 n"
  have n: "0 < n" "real n \<le> x" "x < real n + 1"
    using True by (simp_all add: n_def)
  from floorlog_bounds[of n 2] n(1)
  have b: "2 ^ (k - 1) \<le> n" "n < 2 ^ k" by (simp_all add: k_def)
  have k: "0 < k" using n(1) by (simp add: k_def floorlog_def)
  have s: "n + 1 \<le> 2 ^ k" using b(2) by simp
  have u: "real n + 1 \<le> 2 ^ k" using of_nat_mono[OF s, where 'a = real] by simp
  have l: "(2::real) ^ (k - 1) \<le> real n" using of_nat_mono[OF b(1), where 'a = real] by simp
  have e: "lg2 x = int k - 1" using True by (simp add: lg2_def n_def k_def)
  have p1: "pow2 (int k - 1) = 2 ^ (k - 1)" using k by (simp add: pow2_def nat_diff_distrib')
  have p2: "pow2 (int k - 1 + 1) = 2 ^ k" by (simp add: pow2_def)
  show ?thesis unfolding e p1 p2 using n u l by linarith
next
  case False
  define y where "y = 1 / x"
  define m where "m = nat (\<lceil>y\<rceil> - 1)"
  define k where "k = floorlog 2 m"
  have y: "1 < y" using False assms by (simp add: y_def)
  then have c: "2 \<le> \<lceil>y\<rceil>" by linarith
  have rm: "real m = of_int \<lceil>y\<rceil> - 1" using c by (simp add: m_def)
  have m: "0 < m" "real m < y" "y \<le> real m + 1"
    using c ceiling_correct[of y] by (simp_all add: rm) (simp add: m_def)
  from floorlog_bounds[of m 2] m(1)
  have b: "2 ^ (k - 1) \<le> m" "m < 2 ^ k" by (simp_all add: k_def)
  have k: "0 < k" using m(1) by (simp add: k_def floorlog_def)
  have s: "m + 1 \<le> 2 ^ k" using b(2) by simp
  have u: "real m + 1 \<le> 2 ^ k" using of_nat_mono[OF s, where 'a = real] by simp
  have l: "(2::real) ^ (k - 1) \<le> real m" using of_nat_mono[OF b(1), where 'a = real] by simp
  have e: "lg2 x = - int k" using False by (simp add: lg2_def m_def k_def y_def)
  have p1: "pow2 (- int k) = 1 / 2 ^ k" using k by (simp add: pow2_def)
  have p2: "pow2 (- int k + 1) = 1 / 2 ^ (k - 1)"
  proof (cases "k = 1")
    case True
    then show ?thesis by (simp add: pow2_def)
  next
    case False
    then have "- int k + 1 < 0" "nat (int k - 1) = k - 1" using k by auto
    then show ?thesis by (simp add: pow2_def)
  qed
  have xy: "x = 1 / y" using assms by (simp add: y_def)
  have a: "1 / 2 ^ k \<le> 1 / y" using y u m(3) by (intro divide_left_mono) auto
  have "(2::real) ^ (k - 1) < y" using l m(2) by linarith
  then have b2: "1 / y < 1 / 2 ^ (k - 1)" using y by (intro divide_strict_left_mono) auto
  have "1 / 2 ^ k \<le> x \<and> x < 1 / 2 ^ (k - 1)" using a b2 by (simp add: xy)
  then show ?thesis unfolding e p1 p2 .
qed

lemma VmSoma_fst_Vm:
  "Vm (VmFmG fexp ac nrn) = Vm (fst (VmSoma fexp ac nrn))"
  by (simp add: VmFmG_def Let_def split: prod.splits)

lemma VmFmG_Vm_refract:
  "refractory ac nrn \<Longrightarrow> Vm (VmFmG fexp ac nrn) = rnd32 (Vm nrn + RefractDvm ac nrn)"
  by (simp add: VmSoma_fst_Vm VmSoma_def Let_def split: prod.splits)

text \<open>
  Claim C5 on the last cycle of the refractory period, where \<^verbatim>\<open>Vm\<close> is to be exactly
  \<^verbatim>\<open>VmR\<close>.  With \<^verbatim>\<open>VmR = float32(0.001)\<close>, \<^verbatim>\<open>Tr = 3\<close>, \<^verbatim>\<open>Vm = 1\<close> and
  \<^verbatim>\<open>ISI = 2\<close>, all of them \<^verbatim>\<open>float32\<close> values, the neuron is inside the refractory
  window and \<^verbatim>\<open>int32(ISI)\<close> is \<^verbatim>\<open>Tr - 1\<close>.  The difference \<^verbatim>\<open>VmR - Vm\<close> is
  rounded to -16760439 / 16777216, and \<^verbatim>\<open>Vm + dvm\<close> is 16777 / 16777216, which is not
  \<^verbatim>\<open>VmR\<close>.
\<close>

theorem VmFmG_last_refractory_cycle_misses_VmR:
  "refractory low_VmR_ac spiked_nrn
   \<and> trunc_int (ISI spiked_nrn) = Tr (Spike low_VmR_ac) - 1
   \<and> rnd32 (VmR (Spike low_VmR_ac)) = VmR (Spike low_VmR_ac)
   \<and> rnd32 (Vm spiked_nrn) = Vm spiked_nrn
   \<and> rnd32 (1 / 1000) = VmR (Spike low_VmR_ac)
   \<and> RefractDvm low_VmR_ac spiked_nrn = - (16760439 / 16777216)
   \<and> Vm (VmFmG (\<lambda>x. 0) low_VmR_ac spiked_nrn) = 16777 / 16777216
   \<and> Vm (VmFmG (\<lambda>x. 0) low_VmR_ac spiked_nrn) \<noteq> VmR (Spike low_VmR_ac)"
  by code_simp

subsection \<open>Build errors\<close>

lemma SendPrjnLoop_count:
  "SendPrjnLoop ss ps totSyn tot nsend nn pjs c = Some c1
   \<Longrightarrow> fst c1 = fst c + length pjs \<and> (fst c \<le> nsend \<longrightarrow> fst c1 \<le> nsend)"
proof (induction pjs arbitrary: c)
  case Nil
  then show ?case by simp
next
  case (Cons pj pjs)
  from Cons.prems obtain p c2 where
    a: "fst c < nsend" "SendPrjnLoop ss ps totSyn tot nsend nn pjs (Suc (fst c), c2) = Some c1"
    by (auto split: option.splits if_splits)
  from Cons.IH[OF a(2)] a(1) show ?case by simp
qed

lemma SendLayerLoop_count:
  "SendLayerLoop ss ps totSyn tot nsend ls c = Some c1
   \<Longrightarrow> fst c1 = fst c + snd_all ls \<and> (fst c \<le> nsend \<longrightarrow> fst c1 \<le> nsend)"
proof (induction ls arbitrary: c)
  case Nil
  then show ?case by (simp add: snd_all_def)
next
  case (Cons ly ls)
  from Cons.prems obtain c2 where
    a: "SendPrjnLoop ss ps totSyn tot nsend (Lay_Neurons ly) (Lay_SndPrjns ly) c = Some c2"
       "SendLayerLoop ss ps totSyn tot nsend ls c2 = Some c1"
    by (auto split: option.splits)
  from SendPrjnLoop_count[OF a(1)] Cons.IH[OF a(2)] show ?case by (auto simp: snd_all_def)
qed

lemma snd_on_le_all: "snd_on ls \<le> snd_all ls"
  unfolding snd_on_def snd_all_def by (induction ls) auto

lemma snd_on_less_all:
  "\<exists>ly \<in> set ls. Lay_Off ly \<and> Lay_SndPrjns ly \<noteq> [] \<Longrightarrow> snd_on ls < snd_all ls"
proof (induction ls)
  case Nil
  then show ?case by simp
next
  case (Cons ly ls)
  show ?case
  proof (cases "Lay_Off ly \<and> Lay_SndPrjns ly \<noteq> []")
    case True
    then have l: "0 < length (Lay_SndPrjns ly)" by simp
    have e1: "snd_on (ly # ls) = snd_on ls" using True by (simp add: snd_on_def)
    have e2: "snd_all (ly # ls) = length (Lay_SndPrjns ly) + snd_all ls" by (simp add: snd_all_def)
    show ?thesis using l snd_on_le_all[of ls] e1 e2 by linarith
  next
    case False
    then have "\<exists>ly \<in> set ls. Lay_Off ly \<and> Lay_SndPrjns ly \<noteq> []" using Cons.prems by auto
    have e1: "snd_on (ly # ls) \<le> length (Lay_SndPrjns ly) + snd_on ls" by (simp add: snd_on_def)
    have e2: "snd_all (ly # ls) = length (Lay_SndPrjns ly) + snd_all ls" by (simp add: snd_all_def)
    from Cons.IH[OF \<open>\<exists>ly \<in> set ls. Lay_Off ly \<and> Lay_SndPrjns ly \<noteq> []\<close>] e1 e2
    show ?thesis by linarith
  qed
qed

lemma snd_all_map: "snd_all ls = sum_list (map length (map Lay_SndPrjns ls))"
  by (simp add: snd_all_def comp_def)

lemma snd_on_map:
  "snd_on ls = sum_list (map (\<lambda>i. if map Lay_Off ls ! i then 0 else length (map Lay_SndPrjns ls ! i))
                   [0..<length ls])"
proof -
  have "map (\<lambda>i. if map Lay_Off ls ! i then 0 else length (map Lay_SndPrjns ls ! i)) [0..<length ls]
      = map (\<lambda>i. (\<lambda>ly. if Lay_Off ly then 0 else length (Lay_SndPrjns ly)) (ls ! i)) [0..<length ls]"
    by (rule map_cong) simp_all
  also have "\<dots> = map (\<lambda>ly. if Lay_Off ly then 0 else length (Lay_SndPrjns ly)) (map (nth ls) [0..<length ls])"
    by (simp add: comp_def)
  also have "\<dots> = map (\<lambda>ly. if Lay_Off ly then 0 else length (Lay_SndPrjns ly)) ls"
    by (simp only: map_nth)
  finally show ?thesis by (simp add: snd_on_def)
qed

lemma BuildLayer_keeps:
  assumes "keeps_layers lb" and "BuildLayer lb tt li s = Some s1"
  shows "map Lay_Off (Net_Layers (bnet s1)) = map Lay_Off (Net_Layers (bnet s))
     \<and> map Lay_SndPrjns (Net_Layers (bnet s1)) = map Lay_SndPrjns (Net_Layers (bnet s))
     \<and> li < length (Net_Layers (bnet s))
     \<and> sprjnIdx s1 = sprjnIdx s
         + (if map Lay_Off (Net_Layers (bnet s)) ! li then 0
            else length (map Lay_SndPrjns (Net_Layers (bnet s)) ! li))"
proof -
  let ?L = "Net_Layers (bnet s)"
  from assms(2) obtain ly where ly: "li < length ?L" "ly = ?L ! li"
    by (auto simp: BuildLayer_def ixn_def split: if_splits)
  show ?thesis
  proof (cases "Lay_Off ly")
    case True
    then have "s1 = s" using assms(2) ly by (simp add: BuildLayer_def ixn_def)
    then show ?thesis using True ly by simp
  next
    case False
    let ?L1 = "?L[li := ly\<lparr>Lay_Neurons := Lay_Len ly\<rparr>]"
    have "\<exists>ps. bnet s1 = fst (lb ((bnet s)\<lparr>Net_Layers := ?L1, Net_Prjns := ps\<rparr>) li)
        \<and> li < length (Net_Layers (bnet s1))
        \<and> sprjnIdx s1 = sprjnIdx s + length (Lay_SndPrjns (Net_Layers (bnet s1) ! li))"
      using assms(2) False ly
      by (auto simp: BuildLayer_def ixn_def Let_def split: if_splits option.splits)
    then obtain ps where
      a: "bnet s1 = fst (lb ((bnet s)\<lparr>Net_Layers := ?L1, Net_Prjns := ps\<rparr>) li)"
         "li < length (Net_Layers (bnet s1))"
         "sprjnIdx s1 = sprjnIdx s + length (Lay_SndPrjns (Net_Layers (bnet s1) ! li))"
      by blast
    let ?n1 = "(bnet s)\<lparr>Net_Layers := ?L1, Net_Prjns := ps\<rparr>"
    let ?L2 = "Net_Layers (bnet s1)"
    have m1: "map Lay_Off ?L1 = map Lay_Off ?L" "map Lay_SndPrjns ?L1 = map Lay_SndPrjns ?L"
      using ly by (simp_all add: map_update list_update_same_conv)
    from assms(1) have k: "map Lay_Off (Net_Layers (fst (lb ?n1 li))) = map Lay_Off (Net_Layers ?n1)"
        "map Lay_SndPrjns (Net_Layers (fst (lb ?n1 li))) = map Lay_SndPrjns (Net_Layers ?n1)"
      unfolding keeps_layers_def by blast+
    then have m2: "map Lay_Off ?L2 = map Lay_Off ?L" "map Lay_SndPrjns ?L2 = map Lay_SndPrjns ?L"
      using m1 a(1) by simp_all
    have "Lay_SndPrjns (?L2 ! li) = map Lay_SndPrjns ?L2 ! li" using a(2) by simp
    then have s2: "Lay_SndPrjns (?L2 ! li) = map Lay_SndPrjns ?L ! li" using m2 by simp
    have o: "\<not> map Lay_Off ?L ! li" using False ly by simp
    show ?thesis using a(3) m2 ly(1) s2 o by simp
  qed
qed

lemma BuildLoop_count:
  assumes "keeps_layers lb"
  shows "BuildLoop lb tt lis s = Some s1 \<Longrightarrow>
     map Lay_Off (Net_Layers (bnet s1)) = map Lay_Off (Net_Layers (bnet s))
     \<and> map Lay_SndPrjns (Net_Layers (bnet s1)) = map Lay_SndPrjns (Net_Layers (bnet s))
     \<and> sprjnIdx s1 = sprjnIdx s
         + sum_list (map (\<lambda>i. if map Lay_Off (Net_Layers (bnet s)) ! i then 0
                              else length (map Lay_SndPrjns (Net_Layers (bnet s)) ! i)) lis)"
proof (induction lis arbitrary: s)
  case Nil
  then show ?case by simp
next
  case (Cons li lis)
  from Cons.prems obtain s2 where
    a: "BuildLayer lb tt li s = Some s2" "BuildLoop lb tt lis s2 = Some s1"
    by (auto split: option.splits)
  note b = BuildLayer_keeps[OF assms a(1)]
  have m: "map Lay_Off (Net_Layers (bnet s2)) = map Lay_Off (Net_Layers (bnet s))"
    "map Lay_SndPrjns (Net_Layers (bnet s2)) = map Lay_SndPrjns (Net_Layers (bnet s))"
    using b by simp_all
  have sp: "sprjnIdx s2 = sprjnIdx s
         + (if map Lay_Off (Net_Layers (bnet s)) ! li then 0
            else length (map Lay_SndPrjns (Net_Layers (bnet s)) ! li))"
    using b by simp
  note c = Cons.IH[OF a(2), unfolded m]
  show ?case using c sp by simp
qed

text \<open>
  The array \<^verbatim>\<open>nt.SendPrjnIdxs\<close> has an entry for each sending projection of the layers
  that are on, and the loop that fills it runs over the sending projections of all
  layers.  So whatever the methods that are not among the sources do (as long as the build
  of a layer leaves it as it is which layers are off and what they send), \<^verbatim>\<open>Build\<close>
  does not return when a layer that is off sends a projection.
\<close>

lemma Build_off_sender_never_returns:
  assumes "keeps_layers lb"
    and "\<exists>ly \<in> set (Net_Layers net). Lay_Off ly \<and> Lay_SndPrjns ly \<noteq> []"
  shows "Build lb rs ss net = Panic \<or> Build lb rs ss net = Fatal"
proof -
  let ?L = "Net_Layers net"
  let ?tt = "CountLayers ?L \<lparr>totPools = length ?L, totNeurons = 0, totExts = 0, totPrjns = 0\<rparr>"
  let ?s0 = "\<lparr>bnet = net, emsg = [], totSynapses = 0, totRecvCon = 0, totSendCon = 0,
                neurIdx = 0, prjnIdx = 0, sprjnIdx = 0, poolIdx = 0, extIdx = 0\<rparr>"
  show ?thesis
  proof (cases "BuildLoop lb ?tt [0..<length ?L] ?s0")
    case None
    then show ?thesis by (simp add: Build_def Let_def)
  next
    case (Some s)
    have b0: "bnet ?s0 = net" "sprjnIdx ?s0 = 0" by simp_all
    note k = BuildLoop_count[OF assms(1) Some, unfolded b0]
    have sp: "sprjnIdx s = snd_on ?L" using k by (simp add: snd_on_map)
    have al: "snd_all (Net_Layers (bnet s)) = snd_all ?L" using k by (simp add: snd_all_map)
    have lt: "snd_on ?L < snd_all ?L" by (rule snd_on_less_all[OF assms(2)])
    have nosend: "SendLayerLoop ss ps (totSynapses s) (totSendCon s) (sprjnIdx s)
        (Net_Layers (bnet s)) (0, 0, 0) = None" for ps
    proof (cases "SendLayerLoop ss ps (totSynapses s) (totSendCon s) (sprjnIdx s)
        (Net_Layers (bnet s)) (0, 0, 0)")
      case None
      then show ?thesis .
    next
      case (Some c1)
      from SendLayerLoop_count[OF Some] have "snd_all (Net_Layers (bnet s)) \<le> sprjnIdx s" by simp
      then show ?thesis using sp al lt by simp
    qed
    show ?thesis
      by (simp add: Build_def Let_def Some nosend split: option.splits)
  qed
qed

text \<open>
  Claim C8 on a network with a layer that is off.  In a network of three layers with one
  projection, from the second layer into the first, where the builds of the first and of
  the third layer return the errors \<open>a\<close> and \<open>b\<close>: when all layers are on, \<^verbatim>\<open>Build\<close>
  returns one error with the two messages, each followed by a newline; when the second
  layer is off, \<^verbatim>\<open>Build\<close> panics and returns nothing.  The second loop skips the layer
  that is off, so \<^verbatim>\<open>nt.SendPrjnIdxs\<close> is made with no entry for its sending
  projection, and the loop over the \<^verbatim>\<open>SndPrjns\<close> of all layers indexes it at 0.
\<close>

theorem Build_panics_with_off_layer:
  "Build toy_lb toy_rs toy_ss (toy_bnet False)
     = Returned (Some [CHR ''a'', newline, CHR ''b'', newline])
   \<and> Build toy_lb toy_rs toy_ss (toy_bnet True) = Panic"
  by code_simp

subsection \<open>A failed read of a weights file\<close>

text \<open>
  Claim C7.  When the decoder reports an error for the input, \<^verbatim>\<open>ReadWtsJSON\<close> returns
  that error and the network is the one it was given: nothing of it has been set.
\<close>

theorem ReadWtsJSON_error_leaves_network:
  "dec r = Inl err \<Longrightarrow> ReadWtsJSON dec lset nt r = (nt, Some err)"
  by (simp add: ReadWtsJSON_def)

theorem ReadWtsJSON_error_leaves_network_witness:
  "toy_dec ''{'' = Inl ''unexpected end of JSON input''
   \<and> ReadWtsJSON toy_dec toy_lset toy_net ''{'' = (toy_net, Some ''unexpected end of JSON input'')
   \<and> ReadWtsJSON toy_dec toy_lset toy_net ''ok'' \<noteq> (toy_net, None)"
proof -
  have d: "toy_dec ''{'' = Inl ''unexpected end of JSON input''"
    by (simp add: toy_dec_def)
  have m: "MakeLayMap (Layers toy_net) ''Hidden'' = Some 1"
    by (simp add: MakeLayMap_def toy_net_def enumerate_eq_zip upt_rec)
  have "fst (ReadWtsJSON toy_dec toy_lset toy_net ''ok'') \<noteq> toy_net"
    by (simp add: ReadWtsJSON_def toy_dec_def SetWts_def LayByNameTry_def m Let_def)
       (simp add: toy_net_def toy_lset_def)
  then have "ReadWtsJSON toy_dec toy_lset toy_net ''ok'' \<noteq> (toy_net, None)" by auto
  with d ReadWtsJSON_error_leaves_network[of toy_dec "''{''" "''unexpected end of JSON input''" toy_lset toy_net]
  show ?thesis by simp
qed

subsection \<open>The synapse queries\<close>

lemma SynVal1D_invalid:
  "synIdx < 0 \<or> synIdx \<ge> int (length (Syns pj)) \<or> varIdx < 0 \<or> varIdx \<ge> 11
   \<Longrightarrow> SynVal1D pj varIdx synIdx = NaN"
  by (auto simp: SynVal1D_def SynVarNum_def SynapseVars_def)

lemma SynIdxLoop_not_found:
  "\<forall>ci < n. nat st + k + ci < length cons \<and> int (cons ! (nat st + k + ci)) \<noteq> ridx \<Longrightarrow> 0 \<le> st
   \<Longrightarrow> SynIdxLoop cons st ridx n (int k) = Some (-1)"
proof (induction n arbitrary: k)
  case 0
  then show ?case by simp
next
  case (Suc n)
  from Suc.prems(1) have h0: "nat st + k < length cons" "int (cons ! (nat st + k)) \<noteq> ridx"
    by (metis add.right_neutral zero_less_Suc)+
  have "\<forall>ci<n. nat st + Suc k + ci < length cons \<and> int (cons ! (nat st + Suc k + ci)) \<noteq> ridx"
    using Suc.prems(1) by (metis Suc_less_eq add_Suc_right add_Suc_shift)
  from Suc.IH[OF this Suc.prems(2)] have ih: "SynIdxLoop cons st ridx n (int (Suc k)) = Some (-1)" .
  have n: "nat (st + int k) = nat st + k" using Suc.prems(2) by (simp add: nat_add_distrib)
  have i: "int k + 1 = int (Suc k)" by simp
  show ?case using h0 Suc.prems(2) ih by (simp add: ix_def n i del: of_nat_Suc)
qed

lemma SynIdx_no_synapse:
  assumes "send_con_ok pj" "0 \<le> sidx" "\<not> has_syn pj (nat sidx) (nat ridx) \<or> ridx < 0"
  shows "SynIdx pj sidx ridx = Some (-1)"
proof (cases "sidx \<ge> int (length (SendConN pj))")
  case True
  then show ?thesis by (simp add: SynIdx_def)
next
  case False
  define si where "si = nat sidx"
  have si: "si < length (SendConN pj)" "sidx = int si" using False assms(2) by (auto simp: si_def)
  have b: "SendConIdxStart pj ! si + SendConN pj ! si \<le> length (SendConIdx pj)"
    and l: "length (SendConIdxStart pj) = length (SendConN pj)"
    using assms(1) si(1) by (auto simp: send_con_ok_def)
  have nf: "\<forall>ci < SendConN pj ! si.
      nat (int (SendConIdxStart pj ! si)) + 0 + ci < length (SendConIdx pj)
      \<and> int (SendConIdx pj ! (nat (int (SendConIdxStart pj ! si)) + 0 + ci)) \<noteq> ridx"
  proof (intro allI impI conjI)
    fix ci assume c: "ci < SendConN pj ! si"
    show "nat (int (SendConIdxStart pj ! si)) + 0 + ci < length (SendConIdx pj)" using b c by simp
    show "int (SendConIdx pj ! (nat (int (SendConIdxStart pj ! si)) + 0 + ci)) \<noteq> ridx"
      using assms(3) c si(1) by (auto simp: has_syn_def si_def)
  qed
  from SynIdxLoop_not_found[OF nf] have
    "SynIdxLoop (SendConIdx pj) (int (SendConIdxStart pj ! si)) ridx (SendConN pj ! si) 0 = Some (-1)"
    by simp
  then show ?thesis using si l by (simp add: SynIdx_def ix_def)
qed

lemma SynVal_no_synapse:
  "send_con_ok pj \<Longrightarrow> 0 \<le> sidx \<Longrightarrow> \<not> has_syn pj (nat sidx) (nat ridx) \<or> ridx < 0
   \<Longrightarrow> SynVal pj varNm sidx ridx = Some NaN"
  by (simp add: SynVal_def SynIdx_no_synapse SynVal1D_def split: option.splits)

text \<open>
  Claim C10 at a sender index below 0, which \<^verbatim>\<open>SynIdx\<close> does not test before it
  indexes \<^verbatim>\<open>pj.SendConN\<close>: the query panics (\<open>None\<close>) where the claim has it return
  -1 and NaN.  \<^verbatim>\<open>SynVal1D\<close> alone does return NaN for every index out of range.
\<close>

theorem SynIdx_negative_sender_panics:
  "SynIdx toy_prjn (-1) 0 = None \<and> SynVal toy_prjn ''Wt'' (-1) 0 = None
   \<and> SynVal1D toy_prjn 0 (-1) = NaN \<and> SynVal toy_prjn ''Wt'' 2 0 = Some NaN"
  by (simp add: SynIdx_def SynVal_def SynVal1D_def ix_def toy_prjn_def SynapseVarByName_def
      SynapseVars_def)

subsection \<open>The delay of a spike\<close>

lemma u32_id: "n < 2 ^ 32 \<Longrightarrow> u32 n = n"
  by (simp add: u32_def)

lemma slot_less: "r < n \<Longrightarrow> c < sz \<Longrightarrow> r * sz + c < n * (sz::nat)"
proof -
  assume a: "r < n" "c < sz"
  then have "r * sz + c < r * sz + sz" by simp
  also have "\<dots> = Suc r * sz" by simp
  also have "\<dots> \<le> n * sz" using a(1) by (intro mult_le_mono1) simp
  finally show ?thesis .
qed

lemma slot_inj: "c < sz \<Longrightarrow> c' < sz \<Longrightarrow> r * sz + c = r' * sz + c' \<longleftrightarrow> r = r' \<and> c = (c'::nat)"
proof
  assume a: "c < sz" "c' < sz" and e: "r * sz + c = r' * sz + c'"
  have "(r * sz + c) div sz = r" "(r' * sz + c') div sz = r'" using a by simp_all
  then have "r = r'" using e by simp
  then show "r = r' \<and> c = c'" using e by simp
qed simp

lemma GatherLoop_spec:
  assumes "zi < sz" "(ri + length gvs) * sz \<le> length gbuf" "length gbuf < 2 ^ 32"
  shows "\<exists>gvs' gbuf'. GatherLoop f sz zi ri gvs gbuf = Some (gvs', gbuf')
           \<and> length gvs' = length gvs \<and> length gbuf' = length gbuf
           \<and> (\<forall>i < length gvs. GRaw (gvs' ! i) = gbuf ! ((ri + i) * sz + zi))
           \<and> (\<forall>r c. c < sz \<longrightarrow> r * sz + c < length gbuf \<longrightarrow>
                 gbuf' ! (r * sz + c) =
                   (if c = zi \<and> ri \<le> r \<and> r < ri + length gvs then 0 else gbuf ! (r * sz + c)))"
  using assms
proof (induction gvs arbitrary: ri gbuf)
  case Nil
  then show ?case by simp
next
  case (Cons gv gvs)
  have lt: "ri * sz + zi < length gbuf"
    using slot_less[of ri "ri + length (gv # gvs)" zi sz] Cons.prems by simp
  have r32: "ri < 2 ^ 32"
  proof -
    have "ri \<le> ri * sz" using Cons.prems(1) by (cases sz) simp_all
    then show ?thesis using lt Cons.prems(3) by linarith
  qed
  have bi: "u32 (u32 ri * sz + zi) = ri * sz + zi"
    using lt Cons.prems(3) r32 by (simp add: u32_id)
  let ?g1 = "gbuf[ri * sz + zi := 0]"
  have p2: "(Suc ri + length gvs) * sz \<le> length ?g1" using Cons.prems(2) by simp
  have p3: "length ?g1 < 2 ^ 32" using Cons.prems(3) by simp
  from Cons.IH[OF Cons.prems(1) p2 p3] obtain gvs' gbuf' where
    ih: "GatherLoop f sz zi (Suc ri) gvs ?g1 = Some (gvs', gbuf')"
        "length gvs' = length gvs" "length gbuf' = length gbuf"
        "\<forall>i < length gvs. GRaw (gvs' ! i) = ?g1 ! ((Suc ri + i) * sz + zi)"
        "\<forall>r c. c < sz \<longrightarrow> r * sz + c < length ?g1 \<longrightarrow>
                 gbuf' ! (r * sz + c) =
                   (if c = zi \<and> Suc ri \<le> r \<and> r < Suc ri + length gvs then 0 else ?g1 ! (r * sz + c))"
    by auto
  let ?gv = "gv\<lparr>GRaw := gbuf ! (ri * sz + zi), GSyn := f (GSyn gv) (gbuf ! (ri * sz + zi))\<rparr>"
  have res: "GatherLoop f sz zi ri (gv # gvs) gbuf = Some (?gv # gvs', gbuf')"
    using lt ih(1) by (simp add: bi Let_def)
  have graw: "\<forall>i < length (gv # gvs). GRaw ((?gv # gvs') ! i) = gbuf ! ((ri + i) * sz + zi)"
  proof (intro allI impI)
    fix i assume i: "i < length (gv # gvs)"
    show "GRaw ((?gv # gvs') ! i) = gbuf ! ((ri + i) * sz + zi)"
    proof (cases i)
      case 0
      then show ?thesis by simp
    next
      case (Suc k)
      then have k: "k < length gvs" using i by simp
      have ne: "(Suc ri + k) * sz + zi \<noteq> ri * sz + zi"
        using slot_inj[of zi sz zi "Suc ri + k" ri] Cons.prems(1) by simp
      show ?thesis using ih(4) k Suc ne by (simp del: mult_Suc)
    qed
  qed
  have rest: "\<forall>r c. c < sz \<longrightarrow> r * sz + c < length gbuf \<longrightarrow>
                 gbuf' ! (r * sz + c) =
                   (if c = zi \<and> ri \<le> r \<and> r < ri + length (gv # gvs) then 0 else gbuf ! (r * sz + c))"
  proof (intro allI impI)
    fix r c assume c: "c < sz" and l: "r * sz + c < length gbuf"
    have e: "r * sz + c = ri * sz + zi \<longleftrightarrow> r = ri \<and> c = zi"
      using slot_inj[of c sz zi r ri] c Cons.prems(1) by simp
    have g1: "?g1 ! (r * sz + c) = (if r = ri \<and> c = zi then 0 else gbuf ! (r * sz + c))"
    proof (cases "r = ri \<and> c = zi")
      case True
      then show ?thesis using l by simp
    next
      case False
      then have "r * sz + c \<noteq> ri * sz + zi" using e by simp
      then show ?thesis using False by auto
    qed
    have "gbuf' ! (r * sz + c) =
        (if c = zi \<and> Suc ri \<le> r \<and> r < Suc ri + length gvs then 0 else ?g1 ! (r * sz + c))"
      using ih(5) c l by simp
    then show "gbuf' ! (r * sz + c) =
        (if c = zi \<and> ri \<le> r \<and> r < ri + length (gv # gvs) then 0 else gbuf ! (r * sz + c))"
      using g1 by (auto simp: le_Suc_eq)
  qed
  show ?case using res ih(2,3) graw rest by (intro exI[of _ "?gv # gvs'"] exI[of _ gbuf']) simp
qed

lemma PoolLoop_some:
  assumes "zi < sz" "(k + n) * sz \<le> length pibuf" "length pibuf < 2 ^ 32"
  shows "\<exists>pools' pibuf'. PoolLoop sz zi k n (pools, pibuf) = Some (pools', pibuf')
           \<and> length pools' = length pools \<and> length pibuf' = length pibuf"
  using assms
proof (induction n arbitrary: k pools pibuf)
  case 0
  then show ?case by simp
next
  case (Suc n)
  have lt: "k * sz + zi < length pibuf"
    using slot_less[of k "k + Suc n" zi sz] Suc.prems by simp
  have k32: "k < 2 ^ 32"
  proof -
    have "k \<le> k * sz" using Suc.prems(1) by (cases sz) simp_all
    then show ?thesis using lt Suc.prems(3) by linarith
  qed
  have bi: "u32 (u32 k * sz + zi) = k * sz + zi"
    using lt Suc.prems(3) k32 by (simp add: u32_id)
  let ?sv = "pibuf ! (k * sz + zi)"
  let ?p1 = "pools[k := pools ! k + ?sv]"
  let ?p2 = "?p1[0 := ?p1 ! 0 + ?sv]"
  let ?b = "pibuf[k * sz + zi := 0]"
  have "(Suc k + n) * sz \<le> length ?b" "length ?b < 2 ^ 32" using Suc.prems by simp_all
  from Suc.IH[OF Suc.prems(1) this, of ?p2] obtain pools' pibuf' where
    "PoolLoop sz zi (Suc k) n (?p2, ?b) = Some (pools', pibuf')"
    "length pools' = length ?p2" "length pibuf' = length ?b" by auto
  then show ?case using lt by (simp add: bi Let_def)
qed

lemma Idx_one:
  assumes "Zi fi \<le> d" "Len fi = d + 1" "d + 1 < 2 ^ 31"
  shows "Idx fi 1 = (Zi fi + 1) mod (d + 1)"
proof -
  have "u32 (1 + Zi fi) = 1 + Zi fi" using assms by (intro u32_id) simp
  then show ?thesis using assms by (auto simp: Idx_def Let_def le_Suc_eq)
qed

lemma Idx_delay:
  assumes "Zi fi \<le> d" "Len fi = d + 1" "d + 1 < 2 ^ 31"
  shows "Idx fi d = (Zi fi + d) mod (d + 1)"
proof -
  have u: "u32 (d + Zi fi) = d + Zi fi" using assms by (intro u32_id) simp
  show ?thesis
  proof (cases "Zi fi = 0")
    case True
    then show ?thesis using u assms by (simp add: Idx_def Let_def)
  next
    case False
    then have "Zi fi + d = (Zi fi - 1) + (d + 1)" by simp
    then have "(Zi fi + d) mod (d + 1) = (Zi fi - 1) mod (d + 1)"
      by (metis mod_add_self2)
    then have "(Zi fi + d) mod (d + 1) = Zi fi - 1" using assms by simp
    then show ?thesis using u assms False by (simp add: Idx_def Let_def)
  qed
qed

lemma gather_step:
  assumes ok: "gbuf_ok pj np" and pl: "Inhib pj \<or> length pools = np"
  shows "\<exists>pj' pools'. PrjnGatherSpikes dp (pj, pools) = Some (pj', pools')
      \<and> gbuf_ok pj' np \<and> length pools' = length pools
      \<and> Delay pj' = Delay pj \<and> Inhib pj' = Inhib pj \<and> length (GVals pj') = length (GVals pj)
      \<and> Zi (Gidx pj') = (Zi (Gidx pj) + 1) mod (Delay pj + 1)
      \<and> (\<forall>r < length (GVals pj). GRaw (GVals pj' ! r) = GBuf pj ! (r * (Delay pj + 1) + Zi (Gidx pj)))
      \<and> (\<forall>r c. r < length (GVals pj) \<longrightarrow> c \<le> Delay pj \<longrightarrow> c \<noteq> Zi (Gidx pj) \<longrightarrow>
            GBuf pj' ! (r * (Delay pj + 1) + c) = GBuf pj ! (r * (Delay pj + 1) + c))"
proof -
  let ?d = "Delay pj" and ?zi = "Zi (Gidx pj)"
  let ?sz = "?d + 1"
  have len: "Len (Gidx pj) = ?sz" and zi: "?zi < ?sz"
    and gl: "length (GBuf pj) = length (GVals pj) * ?sz" and g32: "length (GBuf pj) < 2 ^ 32"
    and d31: "?sz < 2 ^ 31"
    using ok by (auto simp: gbuf_ok_def)
  have sz: "u32 (Suc ?d) = Suc ?d" using d31 by (intro u32_id) simp
  have sh: "Zi (Shift (Gidx pj) 1) = (?zi + 1) mod ?sz" "Len (Shift (Gidx pj) 1) = ?sz"
    using Idx_one[of "Gidx pj" ?d] zi len d31 by (simp_all add: Shift_def)
  have zi': "(?zi + 1) mod ?sz \<le> ?d"
    by (metis Suc_eq_plus1 less_Suc_eq_le mod_less_divisor zero_less_Suc)
  {
    fix f
    from GatherLoop_spec[of ?zi ?sz 0 "GVals pj" "GBuf pj" f] zi gl g32
    obtain gvs gbuf where
      g: "GatherLoop f ?sz ?zi 0 (GVals pj) (GBuf pj) = Some (gvs, gbuf)"
         "length gvs = length (GVals pj)" "length gbuf = length (GBuf pj)"
         "\<forall>i < length (GVals pj). GRaw (gvs ! i) = GBuf pj ! (i * ?sz + ?zi)"
         "\<forall>r c. c < ?sz \<longrightarrow> r * ?sz + c < length (GBuf pj) \<longrightarrow>
             gbuf ! (r * ?sz + c) =
               (if c = ?zi \<and> 0 \<le> r \<and> r < 0 + length (GVals pj) then 0 else GBuf pj ! (r * ?sz + c))"
      by auto
    have keep: "\<forall>r c. r < length (GVals pj) \<longrightarrow> c \<le> ?d \<longrightarrow> c \<noteq> ?zi \<longrightarrow>
            gbuf ! (r * ?sz + c) = GBuf pj ! (r * ?sz + c)"
    proof (intro allI impI)
      fix r c assume a: "r < length (GVals pj)" "c \<le> ?d" "c \<noteq> ?zi"
      have "r * ?sz + c < length (GBuf pj)" using slot_less[of r "length (GVals pj)" c ?sz] a gl by simp
      then show "gbuf ! (r * ?sz + c) = GBuf pj ! (r * ?sz + c)" using g(5) a by simp
    qed
    have "\<exists>gvs gbuf. GatherLoop f ?sz ?zi 0 (GVals pj) (GBuf pj) = Some (gvs, gbuf)
        \<and> length gvs = length (GVals pj) \<and> length gbuf = length (GBuf pj)
        \<and> (\<forall>i < length (GVals pj). GRaw (gvs ! i) = GBuf pj ! (i * ?sz + ?zi))
        \<and> (\<forall>r c. r < length (GVals pj) \<longrightarrow> c \<le> ?d \<longrightarrow> c \<noteq> ?zi \<longrightarrow>
            gbuf ! (r * ?sz + c) = GBuf pj ! (r * ?sz + c))"
      using g(1-4) keep by blast
  } note gl_spec = this
  show ?thesis
  proof (cases "Inhib pj")
    case True
    from gl_spec[of "GiSynFmRaw dp"] obtain gvs gbuf where
      g: "GatherLoop (GiSynFmRaw dp) ?sz ?zi 0 (GVals pj) (GBuf pj) = Some (gvs, gbuf)"
         "length gvs = length (GVals pj)" "length gbuf = length (GBuf pj)"
         "\<forall>i < length (GVals pj). GRaw (gvs ! i) = GBuf pj ! (i * ?sz + ?zi)"
         "\<forall>r c. r < length (GVals pj) \<longrightarrow> c \<le> ?d \<longrightarrow> c \<noteq> ?zi \<longrightarrow>
            gbuf ! (r * ?sz + c) = GBuf pj ! (r * ?sz + c)"
      by blast
    let ?pj' = "pj\<lparr>GVals := gvs, GBuf := gbuf, Gidx := Shift (Gidx pj) 1\<rparr>"
    have r: "PrjnGatherSpikes dp (pj, pools) = Some (?pj', pools)"
      using True g(1) by (simp add: PrjnGatherSpikes_def Let_def sz)
    have ok': "gbuf_ok ?pj' np"
      using ok True g(2,3) sh zi' by (simp add: gbuf_ok_def)
    show ?thesis
      using r ok' g(2,4,5) sh by (intro exI[of _ ?pj'] exI[of _ pools]) simp
  next
    case False
    then have np: "0 < np" "length (PIBuf pj) = np * ?sz" "np * ?sz < 2 ^ 32" "length pools = np"
      using ok pl by (auto simp: gbuf_ok_def)
    have "\<exists>pools' pibuf'. GatherPools pj ?sz ?zi pools = Some (pools', pibuf')
        \<and> length pools' = length pools \<and> length pibuf' = length (PIBuf pj)"
    proof (cases "length pools = 1")
      case True
      then have "?zi < length (PIBuf pj)" using np zi by simp
      then show ?thesis using True by (auto simp: GatherPools_def ixn_def)
    next
      case F: False
      have ne: "pools \<noteq> []" using np by auto
      from PoolLoop_some[of ?zi ?sz 0 "length pools" "PIBuf pj" pools] zi np
      show ?thesis using F ne by (simp add: GatherPools_def)
    qed
    then obtain pools' pibuf' where
      p: "GatherPools pj ?sz ?zi pools = Some (pools', pibuf')"
         "length pools' = length pools" "length pibuf' = length (PIBuf pj)" by blast
    from gl_spec[of "GeSynFmRaw dp"] obtain gvs gbuf where
      g: "GatherLoop (GeSynFmRaw dp) ?sz ?zi 0 (GVals pj) (GBuf pj) = Some (gvs, gbuf)"
         "length gvs = length (GVals pj)" "length gbuf = length (GBuf pj)"
         "\<forall>i < length (GVals pj). GRaw (gvs ! i) = GBuf pj ! (i * ?sz + ?zi)"
         "\<forall>r c. r < length (GVals pj) \<longrightarrow> c \<le> ?d \<longrightarrow> c \<noteq> ?zi \<longrightarrow>
            gbuf ! (r * ?sz + c) = GBuf pj ! (r * ?sz + c)"
      by blast
    let ?pj' = "pj\<lparr>GVals := gvs, GBuf := gbuf, PIBuf := pibuf', Gidx := Shift (Gidx pj) 1\<rparr>"
    have r: "PrjnGatherSpikes dp (pj, pools) = Some (?pj', pools')"
      using False g(1) p(1) by (simp add: PrjnGatherSpikes_def Let_def sz)
    have ok': "gbuf_ok ?pj' np"
      using ok False g(2,3) p(3) sh zi' by (simp add: gbuf_ok_def)
    show ?thesis
      using r ok' g(2,4,5) p(2) sh by (intro exI[of _ ?pj'] exI[of _ pools']) simp
  qed
qed

lemma mod_shift_ne:
  assumes "z < sz" "0 < k" "k < (sz::nat)"
  shows "(z + k) mod sz \<noteq> z"
proof (cases "z + k < sz")
  case True
  then show ?thesis using assms by simp
next
  case False
  then have "(z + k) mod sz = z + k - sz"
    using assms by (simp add: mod_if)
  then show ?thesis using assms False by linarith
qed

lemma mod_slots_distinct:
  assumes "j < j'" "j' < (sz::nat)"
  shows "(z + j) mod sz \<noteq> (z + j') mod sz"
proof -
  have sz: "0 < sz" using assms by simp
  have "((z + j) mod sz + (j' - j)) mod sz = (z + j + (j' - j)) mod sz"
    by (simp add: mod_add_left_eq)
  also have "\<dots> = (z + j') mod sz" using assms by simp
  finally have e: "((z + j) mod sz + (j' - j)) mod sz = (z + j') mod sz" .
  have "((z + j) mod sz + (j' - j)) mod sz \<noteq> (z + j) mod sz"
    using assms sz by (intro mod_shift_ne) simp_all
  then show ?thesis using e by simp
qed

lemma Gathers_GRaw:
  assumes "gbuf_ok pj np" "Inhib pj \<or> length pools = np" "j \<le> Delay pj"
  shows "\<exists>pj' pools'. Gathers dp (Suc j) (pj, pools) = Some (pj', pools')
      \<and> length (GVals pj') = length (GVals pj)
      \<and> (\<forall>r < length (GVals pj).
            GRaw (GVals pj' ! r) =
              GBuf pj ! (r * (Delay pj + 1) + (Zi (Gidx pj) + j) mod (Delay pj + 1)))"
  using assms
proof (induction j arbitrary: pj pools)
  case 0
  from gather_step[OF 0(1,2), of dp] obtain pj' pools' where
    g: "PrjnGatherSpikes dp (pj, pools) = Some (pj', pools')"
       "length (GVals pj') = length (GVals pj)"
       "\<forall>r < length (GVals pj). GRaw (GVals pj' ! r) = GBuf pj ! (r * (Delay pj + 1) + Zi (Gidx pj))"
    by blast
  have "Zi (Gidx pj) mod (Delay pj + 1) = Zi (Gidx pj)" using 0(1) by (simp add: gbuf_ok_def)
  then show ?case using g by simp
next
  case (Suc j)
  from gather_step[OF Suc(2,3), of dp] obtain pj1 pools1 where
    g: "PrjnGatherSpikes dp (pj, pools) = Some (pj1, pools1)"
       "gbuf_ok pj1 np" "length pools1 = length pools"
       "Delay pj1 = Delay pj" "Inhib pj1 = Inhib pj" "length (GVals pj1) = length (GVals pj)"
       "Zi (Gidx pj1) = (Zi (Gidx pj) + 1) mod (Delay pj + 1)"
       "\<forall>r c. r < length (GVals pj) \<longrightarrow> c \<le> Delay pj \<longrightarrow> c \<noteq> Zi (Gidx pj) \<longrightarrow>
            GBuf pj1 ! (r * (Delay pj + 1) + c) = GBuf pj ! (r * (Delay pj + 1) + c)"
    by blast
  have pl1: "Inhib pj1 \<or> length pools1 = np" using g(3,5) Suc(3) by simp
  have j1: "j \<le> Delay pj1" using Suc(4) g(4) by simp
  from Suc.IH[OF g(2) pl1 j1] obtain pj' pools' where
    ih: "Gathers dp (Suc j) (pj1, pools1) = Some (pj', pools')"
        "length (GVals pj') = length (GVals pj1)"
        "\<forall>r < length (GVals pj1).
            GRaw (GVals pj' ! r) =
              GBuf pj1 ! (r * (Delay pj1 + 1) + (Zi (Gidx pj1) + j) mod (Delay pj1 + 1))"
    by blast
  let ?sz = "Delay pj + 1"
  let ?c = "(Zi (Gidx pj) + Suc j) mod ?sz"
  have c1: "(Zi (Gidx pj1) + j) mod ?sz = ?c"
    by (simp add: g(7) mod_add_left_eq)
  have zi: "Zi (Gidx pj) < ?sz" using Suc(2) by (simp add: gbuf_ok_def)
  have c2: "?c \<noteq> Zi (Gidx pj)" using mod_shift_ne[of "Zi (Gidx pj)" ?sz "Suc j"] zi Suc(4) by simp
  have c3: "?c \<le> Delay pj" by (metis Suc_eq_plus1 less_Suc_eq_le mod_less_divisor zero_less_Suc)
  have r: "Gathers dp (Suc (Suc j)) (pj, pools) = Some (pj', pools')"
    using g(1) ih(1) by simp
  have "\<forall>r < length (GVals pj). GRaw (GVals pj' ! r) = GBuf pj ! (r * ?sz + ?c)"
  proof (intro allI impI)
    fix r assume r: "r < length (GVals pj)"
    have "GRaw (GVals pj' ! r) = GBuf pj1 ! (r * ?sz + ?c)"
      using ih(3) r g(4,6) c1 by simp
    also have "\<dots> = GBuf pj ! (r * ?sz + ?c)" using g(8) r c2 c3 by blast
    finally show "GRaw (GVals pj' ! r) = GBuf pj ! (r * ?sz + ?c)" .
  qed
  moreover have "length (GVals pj') = length (GVals pj)" using ih(2) g(6) by simp
  ultimately show ?case using r by (intro exI[of _ pj'] exI[of _ pools']) simp
qed

lemma SendSpikeLoop_spec:
  assumes "cur < sz" "length gbuf = n * sz" "n * sz < 2 ^ 32"
    "\<forall>x \<in> set cs. fst x < n \<and> (Inhib pj \<or> (fst x < length (PIdxs pj) \<and> PIdxs pj ! fst x < np))"
    "Inhib pj \<or> (length pibuf = np * sz \<and> np * sz < 2 ^ 32)"
  shows "\<exists>g p. SendSpikeLoop pj sz cur cs (gbuf, pibuf) = Some (g, p)
      \<and> length g = length gbuf \<and> length p = length pibuf
      \<and> (\<forall>r c. r < n \<longrightarrow> c < sz \<longrightarrow>
            g ! (r * sz + c) = gbuf ! (r * sz + c)
              + (if c = cur then sum_list (map (\<lambda>x. GScale pj * Wt (snd x)) (filter (\<lambda>x. fst x = r) cs))
                 else 0))"
  using assms
proof (induction cs arbitrary: gbuf pibuf)
  case Nil
  then show ?case by simp
next
  case (Cons x cs)
  let ?sv = "GScale pj * Wt (snd x)"
  let ?bi = "fst x * sz + cur"
  have xn: "fst x < n" using Cons.prems(4) by simp
  have lt: "?bi < length gbuf" using slot_less[OF xn Cons.prems(1)] Cons.prems(2) by simp
  have bi: "u32 ?bi = ?bi" using lt Cons.prems(2,3) by (intro u32_id) simp
  let ?g1 = "gbuf[?bi := gbuf ! ?bi + ?sv]"
  have rest: "\<forall>x \<in> set cs. fst x < n \<and> (Inhib pj \<or> (fst x < length (PIdxs pj) \<and> PIdxs pj ! fst x < np))"
    using Cons.prems(4) by simp
  have upd: "\<And>r c. r < n \<Longrightarrow> c < sz \<Longrightarrow>
      ?g1 ! (r * sz + c) = gbuf ! (r * sz + c) + (if r = fst x \<and> c = cur then ?sv else 0)"
  proof -
    fix r c assume a: "r < n" "c < sz"
    have e: "r * sz + c = ?bi \<longleftrightarrow> r = fst x \<and> c = cur"
      using slot_inj[of c sz cur r "fst x"] a Cons.prems(1) by simp
    show "?g1 ! (r * sz + c) = gbuf ! (r * sz + c) + (if r = fst x \<and> c = cur then ?sv else 0)"
    proof (cases "r = fst x \<and> c = cur")
      case True
      then show ?thesis using lt by simp
    next
      case False
      then have "r * sz + c \<noteq> ?bi" using e by simp
      then show ?thesis using False by auto
    qed
  qed
  have fin: "\<And>g p pb. SendSpikeLoop pj sz cur cs (?g1, pb) = Some (g, p) \<Longrightarrow>
      length g = length ?g1 \<Longrightarrow>
      (\<forall>r c. r < n \<longrightarrow> c < sz \<longrightarrow>
            g ! (r * sz + c) = ?g1 ! (r * sz + c)
              + (if c = cur then sum_list (map (\<lambda>x. GScale pj * Wt (snd x)) (filter (\<lambda>x. fst x = r) cs))
                 else 0)) \<Longrightarrow>
      (\<forall>r c. r < n \<longrightarrow> c < sz \<longrightarrow>
            g ! (r * sz + c) = gbuf ! (r * sz + c)
              + (if c = cur then sum_list (map (\<lambda>x. GScale pj * Wt (snd x)) (filter (\<lambda>x. fst x = r) (x # cs)))
                 else 0))"
    using upd by auto
  show ?case
  proof (cases "Inhib pj")
    case True
    from Cons.IH[of ?g1 pibuf] Cons.prems(1,2,3) rest True obtain g p where
      ih: "SendSpikeLoop pj sz cur cs (?g1, pibuf) = Some (g, p)"
          "length g = length ?g1" "length p = length pibuf"
          "\<forall>r c. r < n \<longrightarrow> c < sz \<longrightarrow>
            g ! (r * sz + c) = ?g1 ! (r * sz + c)
              + (if c = cur then sum_list (map (\<lambda>x. GScale pj * Wt (snd x)) (filter (\<lambda>x. fst x = r) cs))
                 else 0)"
      by auto
    have r: "SendSpikeLoop pj sz cur (x # cs) (gbuf, pibuf) = Some (g, p)"
      using True lt ih(1) by (simp add: bi Let_def)
    show ?thesis using r ih(2,3) fin[OF ih(1,2,4)] by simp
  next
    case False
    then have px: "fst x < length (PIdxs pj)" "PIdxs pj ! fst x < np"
      and pb: "length pibuf = np * sz" "np * sz < 2 ^ 32"
      using Cons.prems(4,5) by auto
    let ?pbi = "PIdxs pj ! fst x * sz + cur"
    have plt: "?pbi < length pibuf" using slot_less[OF px(2) Cons.prems(1)] pb by simp
    have pbi: "u32 ?pbi = ?pbi" using plt pb by (intro u32_id) simp
    let ?p1 = "pibuf[?pbi := pibuf ! ?pbi + ?sv]"
    from Cons.IH[of ?g1 ?p1] Cons.prems(1,2,3) rest pb obtain g p where
      ih: "SendSpikeLoop pj sz cur cs (?g1, ?p1) = Some (g, p)"
          "length g = length ?g1" "length p = length ?p1"
          "\<forall>r c. r < n \<longrightarrow> c < sz \<longrightarrow>
            g ! (r * sz + c) = ?g1 ! (r * sz + c)
              + (if c = cur then sum_list (map (\<lambda>x. GScale pj * Wt (snd x)) (filter (\<lambda>x. fst x = r) cs))
                 else 0)"
      by auto
    have r: "SendSpikeLoop pj sz cur (x # cs) (gbuf, pibuf) = Some (g, p)"
      using False lt plt px(1) ih(1) by (simp add: bi pbi Let_def ixn_def)
    show ?thesis using r ih(2,3) fin[OF ih(1,2,4)] by simp
  qed
qed

lemma SendSpike_spec:
  assumes ok: "gbuf_ok pj np" and so: "send_ok pj np s"
  shows "\<exists>g p. SendSpike pj (int s) = Some (pj\<lparr>GBuf := g, PIBuf := p\<rparr>)
      \<and> length g = length (GBuf pj) \<and> length p = length (PIBuf pj)
      \<and> (\<forall>r c. r < length (GVals pj) \<longrightarrow> c \<le> Delay pj \<longrightarrow>
            g ! (r * (Delay pj + 1) + c) = GBuf pj ! (r * (Delay pj + 1) + c)
              + (if c = (Zi (Gidx pj) + Delay pj) mod (Delay pj + 1) then sent pj s r else 0))"
proof -
  let ?d = "Delay pj" and ?st = "SendConIdxStart pj ! s" and ?nc = "SendConN pj ! s"
  let ?sz = "?d + 1"
  let ?cur = "(Zi (Gidx pj) + ?d) mod ?sz"
  let ?syns = "take ?nc (drop ?st (Syns pj))" and ?cons = "take ?nc (drop ?st (SendConIdx pj))"
  have len: "Len (Gidx pj) = ?sz" and zi: "Zi (Gidx pj) \<le> ?d"
    and gl: "length (GBuf pj) = length (GVals pj) * ?sz" and g32: "length (GVals pj) * ?sz < 2 ^ 32"
    and d31: "?sz < 2 ^ 31"
    and pb: "Inhib pj \<or> (length (PIBuf pj) = np * ?sz \<and> np * ?sz < 2 ^ 32)"
    using ok by (auto simp: gbuf_ok_def)
  have s1: "s < length (SendConN pj)" "s < length (SendConIdxStart pj)"
    and s2: "?st + ?nc \<le> length (Syns pj)" "?st + ?nc \<le> length (SendConIdx pj)" "?st + ?nc < 2 ^ 32"
    and s3: "\<forall>ci < ?nc. SendConIdx pj ! (?st + ci) < length (GVals pj)
            \<and> (Inhib pj \<or> (SendConIdx pj ! (?st + ci) < length (PIdxs pj)
                 \<and> PIdxs pj ! (SendConIdx pj ! (?st + ci)) < np))"
    using so by (auto simp: send_ok_def)
  have sz: "u32 (Suc ?d) = Suc ?d" using d31 by (intro u32_id) simp
  have cur: "Idx (Gidx pj) ?d = ?cur" using Idx_delay[OF zi len d31] .
  have curlt: "?cur < Suc ?d" by simp
  have hi: "u32 (?st + ?nc) = ?st + ?nc" using s2(3) by (rule u32_id)
  have sl1: "slice (Syns pj) ?st (u32 (?st + ?nc)) = Some ?syns"
    using s2(1) by (simp add: slice_def hi)
  have sl2: "slice (SendConIdx pj) ?st (u32 (?st + ?nc)) = Some ?cons"
    using s2(2) by (simp add: slice_def hi)
  have el: "\<forall>x \<in> set (zip ?cons ?syns).
      fst x < length (GVals pj) \<and> (Inhib pj \<or> (fst x < length (PIdxs pj) \<and> PIdxs pj ! fst x < np))"
  proof
    fix x assume "x \<in> set (zip ?cons ?syns)"
    then have "fst x \<in> set ?cons" by (metis in_set_zipE prod.collapse)
    then obtain ci where ci: "ci < length ?cons" "fst x = ?cons ! ci" by (metis in_set_conv_nth)
    have c: "ci < ?nc" using ci(1) by simp
    have "?cons ! ci = SendConIdx pj ! (?st + ci)" using c s2(2) by simp
    then show "fst x < length (GVals pj) \<and> (Inhib pj \<or> (fst x < length (PIdxs pj) \<and> PIdxs pj ! fst x < np))"
      using s3 c ci(2) by simp
  qed
  from SendSpikeLoop_spec[of ?cur "Suc ?d" "GBuf pj" "length (GVals pj)" "zip ?cons ?syns" pj np "PIBuf pj"]
    curlt gl g32 el pb
  obtain g p where
    l: "SendSpikeLoop pj (Suc ?d) ?cur (zip ?cons ?syns) (GBuf pj, PIBuf pj) = Some (g, p)"
       "length g = length (GBuf pj)" "length p = length (PIBuf pj)"
       "\<forall>r c. r < length (GVals pj) \<longrightarrow> c < Suc ?d \<longrightarrow>
            g ! (r * Suc ?d + c) = GBuf pj ! (r * Suc ?d + c)
              + (if c = ?cur then sum_list (map (\<lambda>x. GScale pj * Wt (snd x))
                                     (filter (\<lambda>x. fst x = r) (zip ?cons ?syns)))
                 else 0)"
    by auto
  have r: "SendSpike pj (int s) = Some (pj\<lparr>GBuf := g, PIBuf := p\<rparr>)"
    using s1 sl1 sl2 l(1) cur by (simp add: SendSpike_def Let_def ix_def sz)
  have "\<forall>r c. r < length (GVals pj) \<longrightarrow> c \<le> ?d \<longrightarrow>
            g ! (r * ?sz + c) = GBuf pj ! (r * ?sz + c) + (if c = ?cur then sent pj s r else 0)"
    using l(4) by (simp add: sent_def less_Suc_eq_le)
  then show ?thesis using r l(2,3) by blast
qed

text \<open>
  Claim C1, as the code has it.  For a projection whose ring buffer is in order and a
  sender \<open>s\<close> whose synapses are in range, \<^verbatim>\<open>SendSpike\<close> returns, and the calls of
  \<^verbatim>\<open>PrjnGatherSpikes\<close> that follow it return as well.  The first \<^verbatim>\<open>Delay\<close> of
  these calls leave in \<^verbatim>\<open>GRaw\<close> of every receiving neuron what they leave there
  without the spike; the call number \<^verbatim>\<open>Delay + 1\<close> leaves that value plus the scaled
  weights that \<open>s\<close> sent to the neuron.  The send of a cycle comes after the gather of
  that cycle, so that call belongs to cycle \<open>t + Delay + 1\<close> for a spike of cycle \<open>t\<close>.
\<close>

theorem spike_arrives_after_delay:
  assumes "gbuf_ok pj np" "Inhib pj \<or> length pools = np" "send_ok pj np s"
  shows "\<exists>pj1. SendSpike pj (int s) = Some pj1
     \<and> (\<forall>j \<le> Delay pj. \<exists>a b.
           GRaws (Gathers dp (Suc j) (pj, pools)) = Some a
         \<and> GRaws (Gathers dp (Suc j) (pj1, pools)) = Some b
         \<and> length a = length (GVals pj) \<and> length b = length (GVals pj)
         \<and> (\<forall>r < length (GVals pj).
               b ! r = a ! r + (if j = Delay pj then sent pj s r else 0)))"
proof -
  let ?sz = "Delay pj + 1"
  from SendSpike_spec[OF assms(1,3)] obtain g p where
    sp: "SendSpike pj (int s) = Some (pj\<lparr>GBuf := g, PIBuf := p\<rparr>)"
        "length g = length (GBuf pj)" "length p = length (PIBuf pj)"
        "\<forall>r c. r < length (GVals pj) \<longrightarrow> c \<le> Delay pj \<longrightarrow>
            g ! (r * ?sz + c) = GBuf pj ! (r * ?sz + c)
              + (if c = (Zi (Gidx pj) + Delay pj) mod ?sz then sent pj s r else 0)"
    by blast
  let ?pj1 = "pj\<lparr>GBuf := g, PIBuf := p\<rparr>"
  have ok1: "gbuf_ok ?pj1 np" using assms(1) sp(2,3) by (simp add: gbuf_ok_def)
  have pl1: "Inhib ?pj1 \<or> length pools = np" using assms(2) by simp
  have "\<forall>j \<le> Delay pj. \<exists>a b.
           GRaws (Gathers dp (Suc j) (pj, pools)) = Some a
         \<and> GRaws (Gathers dp (Suc j) (?pj1, pools)) = Some b
         \<and> length a = length (GVals pj) \<and> length b = length (GVals pj)
         \<and> (\<forall>r < length (GVals pj).
               b ! r = a ! r + (if j = Delay pj then sent pj s r else 0))"
  proof (intro allI impI)
    fix j assume j: "j \<le> Delay pj"
    let ?c = "(Zi (Gidx pj) + j) mod ?sz"
    from Gathers_GRaw[OF assms(1,2) j, of dp] obtain q qp where
      a: "Gathers dp (Suc j) (pj, pools) = Some (q, qp)"
         "length (GVals q) = length (GVals pj)"
         "\<forall>r < length (GVals pj). GRaw (GVals q ! r) = GBuf pj ! (r * ?sz + ?c)"
      by blast
    have j1: "j \<le> Delay ?pj1" using j by simp
    from Gathers_GRaw[OF ok1 pl1 j1, of dp] obtain q1 qp1 where
      b: "Gathers dp (Suc j) (?pj1, pools) = Some (q1, qp1)"
         "length (GVals q1) = length (GVals pj)"
         "\<forall>r < length (GVals pj). GRaw (GVals q1 ! r) = g ! (r * ?sz + ?c)"
      by auto
    have cle: "?c \<le> Delay pj" by (metis Suc_eq_plus1 less_Suc_eq_le mod_less_divisor zero_less_Suc)
    have ceq: "?c = (Zi (Gidx pj) + Delay pj) mod ?sz \<longleftrightarrow> j = Delay pj"
    proof (cases "j = Delay pj")
      case True
      then show ?thesis by simp
    next
      case False
      then have "j < Delay pj" using j by simp
      then show ?thesis using mod_slots_distinct[of j "Delay pj" ?sz "Zi (Gidx pj)"] False by simp
    qed
    have rel: "\<forall>r < length (GVals pj).
        map GRaw (GVals q1) ! r = map GRaw (GVals q) ! r + (if j = Delay pj then sent pj s r else 0)"
    proof (intro allI impI)
      fix r assume r: "r < length (GVals pj)"
      have "GRaw (GVals q1 ! r) = g ! (r * ?sz + ?c)" using b(3) r by simp
      also have "\<dots> = GBuf pj ! (r * ?sz + ?c) + (if j = Delay pj then sent pj s r else 0)"
        using sp(4) r cle ceq by simp
      also have "\<dots> = GRaw (GVals q ! r) + (if j = Delay pj then sent pj s r else 0)"
        using a(3) r by simp
      finally show "map GRaw (GVals q1) ! r = map GRaw (GVals q) ! r + (if j = Delay pj then sent pj s r else 0)"
        using r a(2) b(2) by simp
    qed
    show "\<exists>a b. GRaws (Gathers dp (Suc j) (pj, pools)) = Some a
         \<and> GRaws (Gathers dp (Suc j) (?pj1, pools)) = Some b
         \<and> length a = length (GVals pj) \<and> length b = length (GVals pj)
         \<and> (\<forall>r < length (GVals pj).
               b ! r = a ! r + (if j = Delay pj then sent pj s r else 0))"
      using a(1,2) b(1,2) rel
      by (intro exI[of _ "map GRaw (GVals q)"] exI[of _ "map GRaw (GVals q1)"]) (simp add: GRaws_def)
  qed
  then show ?thesis using sp(1) by blast
qed

theorem spike_arrives_after_delay_witness:
  "gbuf_ok toy_prjn 0 \<and> send_ok toy_prjn 0 0 \<and> Delay toy_prjn = 1
   \<and> (\<exists>pj1 a b. SendSpike toy_prjn 0 = Some pj1
         \<and> GRaws (Gathers (Dt dflt_ac) (Suc 1) (toy_prjn, [])) = Some a
         \<and> GRaws (Gathers (Dt dflt_ac) (Suc 1) (pj1, [])) = Some b
         \<and> b ! 0 = a ! 0 + 1)"
proof -
  have ok: "gbuf_ok toy_prjn 0"
    by (simp add: gbuf_ok_def toy_prjn_def)
  have so: "send_ok toy_prjn 0 0"
    by (auto simp: send_ok_def toy_prjn_def less_2_cases_iff)
  have pl: "Inhib toy_prjn \<or> length ([]::real list) = 0" by simp
  have d: "Delay toy_prjn = 1" by (simp add: toy_prjn_def)
  have st: "sent toy_prjn 0 0 = 1" by (simp add: sent_def toy_prjn_def syn0_def)
  from spike_arrives_after_delay[OF ok pl so, of "Dt dflt_ac"] obtain pj1 where
    p: "SendSpike toy_prjn (int 0) = Some pj1"
       "\<forall>j \<le> Delay toy_prjn. \<exists>a b.
           GRaws (Gathers (Dt dflt_ac) (Suc j) (toy_prjn, [])) = Some a
         \<and> GRaws (Gathers (Dt dflt_ac) (Suc j) (pj1, [])) = Some b
         \<and> length a = length (GVals toy_prjn) \<and> length b = length (GVals toy_prjn)
         \<and> (\<forall>r < length (GVals toy_prjn).
               b ! r = a ! r + (if j = Delay toy_prjn then sent toy_prjn 0 r else 0))"
    by blast
  from p(2) d obtain a b where
    ab: "GRaws (Gathers (Dt dflt_ac) (Suc 1) (toy_prjn, [])) = Some a"
        "GRaws (Gathers (Dt dflt_ac) (Suc 1) (pj1, [])) = Some b"
        "\<forall>r < length (GVals toy_prjn).
               b ! r = a ! r + (if 1 = Delay toy_prjn then sent toy_prjn 0 r else 0)"
    by (metis le_refl)
  have "0 < length (GVals toy_prjn)" by (simp add: toy_prjn_def)
  then have "b ! 0 = a ! 0 + 1" using ab(3) d st by simp
  then show ?thesis using ok so d p(1) ab(1,2) by auto
qed

text \<open>
  Claim C1 as stated fails.  With delay 1, sender 0 spikes in cycle \<open>t\<close>: the gather of
  cycle \<open>t + 1\<close> leaves the same raw conductances as without the spike, and the spike
  shows in the gather of cycle \<open>t + 2\<close>.
\<close>

theorem spike_not_at_delay_counterexample:
  "Delay toy_prjn = 1
   \<and> GRaws (Cycle (Dt dflt_ac) [0] (toy_prjn, []) \<bind> Cycle (Dt dflt_ac) []) = Some [0, 0]
   \<and> GRaws (Cycle (Dt dflt_ac) [] (toy_prjn, []) \<bind> Cycle (Dt dflt_ac) []) = Some [0, 0]
   \<and> GRaws (Cycle (Dt dflt_ac) [0] (toy_prjn, []) \<bind> Cycle (Dt dflt_ac) [] \<bind> Cycle (Dt dflt_ac) [])
       = Some [1, 2]
   \<and> GRaws (Cycle (Dt dflt_ac) [] (toy_prjn, []) \<bind> Cycle (Dt dflt_ac) [] \<bind> Cycle (Dt dflt_ac) [])
       = Some [0, 0]"
  by (simp add: Cycle_def PrjnGatherSpikes_def SendSpike_def GRaws_def toy_prjn_def syn0_def Let_def
      u32_def ix_def ixn_def slice_def Shift_def Idx_def)

subsection \<open>The size of the ring buffers\<close>

lemma u32_add_left: "u32 (u32 a + b) = u32 (a + b)"
  by (simp add: u32_def mod_add_left_eq)

lemma u32_le: "u32 n \<le> n"
  by (simp add: u32_def)

lemma MaxDelayPrjns_spec:
  "MaxDelayPrjns n pjs acc =
     (max (fst acc) (foldr max (map Com_MaxDelay pjs) 0),
      if pjs = [] then snd acc else u32 (snd acc + length pjs * n))"
proof (induction pjs arbitrary: acc)
  case Nil
  then show ?case by simp
next
  case (Cons pj pjs)
  let ?acc1 = "(if Com_MaxDelay pj > fst acc then Com_MaxDelay pj else fst acc, u32 (snd acc + n))"
  have f: "fst ?acc1 = max (fst acc) (Com_MaxDelay pj)" by (simp add: max_def)
  have s: "(if pjs = [] then snd ?acc1 else u32 (snd ?acc1 + length pjs * n))
      = u32 (snd acc + length (pj # pjs) * n)"
    by (simp add: u32_add_left add.assoc)
  have "MaxDelayPrjns n (pj # pjs) acc = MaxDelayPrjns n pjs ?acc1" by simp
  also have "\<dots> = (max (fst ?acc1) (foldr max (map Com_MaxDelay pjs) 0),
      if pjs = [] then snd ?acc1 else u32 (snd ?acc1 + length pjs * n))"
    by (rule Cons.IH)
  also have "\<dots> = (max (fst acc) (foldr max (map Com_MaxDelay (pj # pjs)) 0),
      u32 (snd acc + length (pj # pjs) * n))"
    unfolding f s by (simp add: max.assoc)
  finally show ?case by simp
qed

lemma MaxDelayLayers_spec:
  assumes "\<forall>ly \<in> set lys. NNeur ly < 2 ^ 32" "snd acc + prjn_neurons lys < 2 ^ 32"
  shows "MaxDelayLayers lys acc = (max (fst acc) (net_max_delay lys), snd acc + prjn_neurons lys)"
  using assms
proof (induction lys arbitrary: acc)
  case Nil
  then show ?case by (simp add: net_max_delay_def prjn_neurons_def)
next
  case (Cons ly lys)
  have n: "u32 (NNeur ly) = NNeur ly" using Cons.prems(1) by (simp add: u32_id)
  have pn: "prjn_neurons (ly # lys) = length (RcvPrjns ly) * NNeur ly + prjn_neurons lys"
    by (simp add: prjn_neurons_def)
  have b: "snd acc + length (RcvPrjns ly) * NNeur ly < 2 ^ 32" using Cons.prems(2) pn by simp
  let ?acc1 = "MaxDelayPrjns (NNeur ly) (RcvPrjns ly) acc"
  have a1: "?acc1 = (max (fst acc) (layer_max_delay ly), snd acc + length (RcvPrjns ly) * NNeur ly)"
    using b by (simp add: MaxDelayPrjns_spec layer_max_delay_def u32_id)
  have p1: "\<forall>ly \<in> set lys. NNeur ly < 2 ^ 32" using Cons.prems(1) by simp
  have p2: "snd ?acc1 + prjn_neurons lys < 2 ^ 32" using Cons.prems(2) pn a1 by simp
  show ?case
    using Cons.IH[OF p1 p2] a1 pn by (simp add: n net_max_delay_def max.assoc)
qed

lemma AllocPrjns_spec:
  assumes "fst idx + length pjs * (n * mx) \<le> tg" "tg \<le> cg" "tg < 2 ^ 32"
    "snd idx + length pjs * n \<le> ts" "ts \<le> cs" "ts < 2 ^ 32"
  shows "\<exists>pjs'. AllocPrjns n mx cg cs pjs idx =
            Some (pjs', fst idx + length pjs * (n * mx), snd idx + length pjs * n)
      \<and> length pjs' = length pjs
      \<and> (\<forall>j < length pjs. GBufLen (pjs' ! j) = n * mx \<and> GSynsLen (pjs' ! j) = n
             \<and> Com_MaxDelay (pjs' ! j) = Com_MaxDelay (pjs ! j))"
  using assms
proof (induction pjs arbitrary: idx)
  case Nil
  then show ?case by simp
next
  case (Cons pj pjs)
  let ?gbi = "fst idx" and ?gsi = "snd idx"
  have le1: "?gbi + n * mx \<le> tg" using Cons.prems(1) by simp
  have le2: "?gsi + n \<le> ts" using Cons.prems(4) by simp
  have gbs: "u32 (n * mx) = n * mx" using le1 Cons.prems(3) by (intro u32_id) simp
  have ghi: "u32 (?gbi + n * mx) = ?gbi + n * mx" using le1 Cons.prems(3) by (intro u32_id) simp
  have shi: "u32 (?gsi + n) = ?gsi + n" using le2 Cons.prems(6) by (intro u32_id) simp
  have q1: "fst (?gbi + n * mx, ?gsi + n) + length pjs * (n * mx) \<le> tg" using Cons.prems(1) by simp
  have q4: "snd (?gbi + n * mx, ?gsi + n) + length pjs * n \<le> ts" using Cons.prems(4) by simp
  from Cons.IH[OF q1 Cons.prems(2,3) q4 Cons.prems(5,6)] obtain pjs' where
    ih: "AllocPrjns n mx cg cs pjs (?gbi + n * mx, ?gsi + n) =
            Some (pjs', ?gbi + n * mx + length pjs * (n * mx), ?gsi + n + length pjs * n)"
        "length pjs' = length pjs"
        "\<forall>j < length pjs. GBufLen (pjs' ! j) = n * mx \<and> GSynsLen (pjs' ! j) = n
             \<and> Com_MaxDelay (pjs' ! j) = Com_MaxDelay (pjs ! j)"
    by auto
  let ?pj = "pj\<lparr>GBufSt := ?gbi, GBufLen := n * mx, GSynSt := ?gsi, GSynsLen := n\<rparr>"
  have r: "AllocPrjns n mx cg cs (pj # pjs) idx =
      Some (?pj # pjs', ?gbi + length (pj # pjs) * (n * mx), ?gsi + length (pj # pjs) * n)"
    using le1 le2 Cons.prems(2,5) ih(1) by (simp add: Let_def gbs ghi shi add.assoc)
  have "\<forall>j < length (pj # pjs). GBufLen ((?pj # pjs') ! j) = n * mx \<and> GSynsLen ((?pj # pjs') ! j) = n
             \<and> Com_MaxDelay ((?pj # pjs') ! j) = Com_MaxDelay ((pj # pjs) ! j)"
    using ih(3) by (auto simp: nth_Cons split: nat.splits)
  then show ?case using r ih(2) by (intro exI[of _ "?pj # pjs'"]) simp
qed

lemma AllocLayers_spec:
  assumes "\<forall>ly \<in> set lys. NNeur ly < 2 ^ 32"
    "fst idx + prjn_neurons lys * mx \<le> tg" "tg \<le> cg" "tg < 2 ^ 32"
    "snd idx + prjn_neurons lys \<le> ts" "ts \<le> cs" "ts < 2 ^ 32"
  shows "\<exists>lys' idx'. AllocLayers mx cg cs lys idx = Some (lys', idx')
      \<and> length lys' = length lys
      \<and> (\<forall>i < length lys. NNeur (lys' ! i) = NNeur (lys ! i)
             \<and> length (RcvPrjns (lys' ! i)) = length (RcvPrjns (lys ! i))
             \<and> (\<forall>j < length (RcvPrjns (lys ! i)).
                   GBufLen (RcvPrjns (lys' ! i) ! j) = NNeur (lys ! i) * mx
                 \<and> Com_MaxDelay (RcvPrjns (lys' ! i) ! j) = Com_MaxDelay (RcvPrjns (lys ! i) ! j)))"
  using assms
proof (induction lys arbitrary: idx)
  case Nil
  then show ?case by simp
next
  case (Cons ly lys)
  let ?n = "NNeur ly" and ?k = "length (RcvPrjns ly)"
  have n: "u32 ?n = ?n" using Cons.prems(1) by (simp add: u32_id)
  have pn: "prjn_neurons (ly # lys) = ?k * ?n + prjn_neurons lys"
    by (simp add: prjn_neurons_def)
  have e: "prjn_neurons (ly # lys) * mx = ?k * (?n * mx) + prjn_neurons lys * mx"
    by (simp add: pn algebra_simps)
  have a1: "fst idx + ?k * (?n * mx) \<le> tg" using Cons.prems(2) e by simp
  have a4: "snd idx + ?k * ?n \<le> ts" using Cons.prems(5) pn by simp
  from AllocPrjns_spec[OF a1 Cons.prems(3,4) a4 Cons.prems(6,7)] obtain pjs' where
    p: "AllocPrjns ?n mx cg cs (RcvPrjns ly) idx =
            Some (pjs', fst idx + ?k * (?n * mx), snd idx + ?k * ?n)"
       "length pjs' = ?k"
       "\<forall>j < ?k. GBufLen (pjs' ! j) = ?n * mx \<and> GSynsLen (pjs' ! j) = ?n
             \<and> Com_MaxDelay (pjs' ! j) = Com_MaxDelay (RcvPrjns ly ! j)"
    by blast
  let ?idx1 = "(fst idx + ?k * (?n * mx), snd idx + ?k * ?n)"
  have q1: "\<forall>ly \<in> set lys. NNeur ly < 2 ^ 32" using Cons.prems(1) by simp
  have q2: "fst ?idx1 + prjn_neurons lys * mx \<le> tg" using Cons.prems(2) e by simp
  have q5: "snd ?idx1 + prjn_neurons lys \<le> ts" using Cons.prems(5) pn by simp
  from Cons.IH[OF q1 q2 Cons.prems(3,4) q5 Cons.prems(6,7)] obtain lys' idx' where
    ih: "AllocLayers mx cg cs lys ?idx1 = Some (lys', idx')"
        "length lys' = length lys"
        "\<forall>i < length lys. NNeur (lys' ! i) = NNeur (lys ! i)
             \<and> length (RcvPrjns (lys' ! i)) = length (RcvPrjns (lys ! i))
             \<and> (\<forall>j < length (RcvPrjns (lys ! i)).
                   GBufLen (RcvPrjns (lys' ! i) ! j) = NNeur (lys ! i) * mx
                 \<and> Com_MaxDelay (RcvPrjns (lys' ! i) ! j) = Com_MaxDelay (RcvPrjns (lys ! i) ! j))"
    by blast
  let ?ly = "ly\<lparr>RcvPrjns := pjs'\<rparr>"
  have r: "AllocLayers mx cg cs (ly # lys) idx = Some (?ly # lys', idx')"
    using p(1) ih(1) by (simp add: n)
  have "\<forall>i < length (ly # lys). NNeur ((?ly # lys') ! i) = NNeur ((ly # lys) ! i)
             \<and> length (RcvPrjns ((?ly # lys') ! i)) = length (RcvPrjns ((ly # lys) ! i))
             \<and> (\<forall>j < length (RcvPrjns ((ly # lys) ! i)).
                   GBufLen (RcvPrjns ((?ly # lys') ! i) ! j) = NNeur ((ly # lys) ! i) * mx
                 \<and> Com_MaxDelay (RcvPrjns ((?ly # lys') ! i) ! j)
                     = Com_MaxDelay (RcvPrjns ((ly # lys) ! i) ! j))"
  proof (intro allI impI)
    fix i assume i: "i < length (ly # lys)"
    show "NNeur ((?ly # lys') ! i) = NNeur ((ly # lys) ! i)
             \<and> length (RcvPrjns ((?ly # lys') ! i)) = length (RcvPrjns ((ly # lys) ! i))
             \<and> (\<forall>j < length (RcvPrjns ((ly # lys) ! i)).
                   GBufLen (RcvPrjns ((?ly # lys') ! i) ! j) = NNeur ((ly # lys) ! i) * mx
                 \<and> Com_MaxDelay (RcvPrjns ((?ly # lys') ! i) ! j)
                     = Com_MaxDelay (RcvPrjns ((ly # lys) ! i) ! j))"
    proof (cases i)
      case 0
      then show ?thesis using p(2,3) by simp
    next
      case (Suc k)
      then show ?thesis using ih(3) i by simp
    qed
  qed
  then show ?case using r ih(2) by (intro exI[of _ "?ly # lys'"] exI[of _ idx']) simp
qed

lemma layer_le_net_max_delay:
  "i < length lys \<Longrightarrow> layer_max_delay (lys ! i) \<le> net_max_delay lys"
proof (induction lys arbitrary: i)
  case Nil
  then show ?case by simp
next
  case (Cons ly lys)
  show ?case
  proof (cases i)
    case 0
    then show ?thesis by (simp add: net_max_delay_def)
  next
    case (Suc k)
    then have "layer_max_delay (lys ! k) \<le> net_max_delay lys" using Cons by simp
    then show ?thesis using Suc by (simp add: net_max_delay_def max.coboundedI2)
  qed
qed

lemma BuildGBuffs_sizes:
  assumes "length (GBuf pj) < 2 ^ 32" "Delay pj + 1 < 2 ^ 32" "(Delay pj + 1) * rlen < 2 ^ 32"
  shows "length (GBuf (BuildGBuffs pj rlen npools)) = rlen * (Delay pj + 1)
       \<and> Len (Gidx (BuildGBuffs pj rlen npools)) = Delay pj + 1"
proof -
  have "rlen \<le> (Delay pj + 1) * rlen" by simp
  then have r: "u32 rlen = rlen" using assms(3) by (intro u32_id) linarith
  have d: "u32 (Suc (Delay pj)) = Suc (Delay pj)" using assms(2) by (intro u32_id) simp
  have g: "u32 (Suc (Delay pj) * rlen) = Suc (Delay pj) * rlen" using assms(3) by (intro u32_id) simp
  have l: "u32 (length (GBuf pj)) = length (GBuf pj)" using assms(1) by (rule u32_id)
  show ?thesis
  proof (cases "Len (Gidx pj) = Suc (Delay pj) \<and> length (GBuf pj) = Suc (Delay pj) * rlen")
    case True
    then have "BuildGBuffs pj rlen npools = pj"
      unfolding BuildGBuffs_def Let_def Suc_eq_plus1[symmetric] r d g l by simp
    then show ?thesis using True by (simp add: mult.commute)
  next
    case False
    then have "BuildGBuffs pj rlen npools =
        pj\<lparr>Gidx := (Gidx pj)\<lparr>Len := Suc (Delay pj), Zi := 0\<rparr>,
           GBuf := replicate (Suc (Delay pj) * rlen) 0,
           PIBuf := replicate (Suc (Delay pj) * npools) 0\<rparr>"
      unfolding BuildGBuffs_def Let_def Suc_eq_plus1[symmetric] r d g l by auto
    then show ?thesis by (simp add: mult.commute)
  qed
qed

lemma BuildPrjnGBuf_sizes:
  assumes "net_fits nt"
  shows "\<exists>nt'. BuildPrjnGBuf nt = Some nt'
      \<and> MaxDelay nt' = net_max_delay (NLayers nt)
      \<and> PrjnGBufLen nt' = prjn_neurons (NLayers nt) * (net_max_delay (NLayers nt) + 1)
      \<and> length (NLayers nt') = length (NLayers nt)
      \<and> (\<forall>i < length (NLayers nt).
            NNeur (NLayers nt' ! i) = NNeur (NLayers nt ! i)
          \<and> length (RcvPrjns (NLayers nt' ! i)) = length (RcvPrjns (NLayers nt ! i))
          \<and> (\<forall>j < length (RcvPrjns (NLayers nt ! i)).
                GBufLen (RcvPrjns (NLayers nt' ! i) ! j)
                  = NNeur (NLayers nt ! i) * (net_max_delay (NLayers nt) + 1)))"
proof -
  let ?lys = "NLayers nt"
  let ?M = "net_max_delay ?lys" and ?P = "prjn_neurons ?lys"
  have n32: "\<forall>ly \<in> set ?lys. NNeur ly < 2 ^ 32" and m32: "?M + 1 < 2 ^ 32"
    and t32: "?P * (?M + 1) < 2 ^ 32"
    using assms by (auto simp: net_fits_def)
  have "?P \<le> ?P * (?M + 1)" by simp
  then have p32: "?P < 2 ^ 32" using t32 by linarith
  have md: "MaxDelayLayers ?lys (0, 0) = (?M, ?P)"
    using MaxDelayLayers_spec[OF n32, of "(0, 0)"] p32 by simp
  have mx: "u32 (Suc ?M) = Suc ?M" using m32 by (intro u32_id) simp
  have gz: "u32 (?P * Suc ?M) = ?P * Suc ?M" using t32 by (intro u32_id) simp
  let ?gbuf = "if u32 (length (PrjnGBuf nt)) \<ge> ?P * Suc ?M then PrjnGBuf nt
               else replicate (?P * Suc ?M) 0"
  let ?gsyns = "if u32 (length (PrjnGSyns nt)) \<ge> ?P then PrjnGSyns nt else replicate ?P 0"
  have cg: "?P * Suc ?M \<le> length ?gbuf"
    using u32_le[of "length (PrjnGBuf nt)"] by (simp del: mult_Suc_right)
  have cs: "?P \<le> length ?gsyns"
    using u32_le[of "length (PrjnGSyns nt)"] by simp
  have a2: "fst (0::nat, 0::nat) + ?P * Suc ?M \<le> ?P * Suc ?M" by simp
  have a5: "snd (0::nat, 0::nat) + ?P \<le> ?P" by simp
  have t32': "?P * Suc ?M < 2 ^ 32" using t32 by simp
  from AllocLayers_spec[OF n32 a2 cg t32' a5 cs p32] obtain lys' idx' where
    al: "AllocLayers (Suc ?M) (length ?gbuf) (length ?gsyns) ?lys (0, 0) = Some (lys', idx')"
        "length lys' = length ?lys"
        "\<forall>i < length ?lys. NNeur (lys' ! i) = NNeur (?lys ! i)
             \<and> length (RcvPrjns (lys' ! i)) = length (RcvPrjns (?lys ! i))
             \<and> (\<forall>j < length (RcvPrjns (?lys ! i)).
                   GBufLen (RcvPrjns (lys' ! i) ! j) = NNeur (?lys ! i) * Suc ?M
                 \<and> Com_MaxDelay (RcvPrjns (lys' ! i) ! j) = Com_MaxDelay (RcvPrjns (?lys ! i) ! j))"
    by blast
  let ?nt' = "nt\<lparr>MaxDelay := ?M, NLayers := lys', PrjnGBuf := ?gbuf, PrjnGBufLen := ?P * Suc ?M,
                 PrjnGSyns := ?gsyns, PrjnGSynsLen := ?P\<rparr>"
  have r: "BuildPrjnGBuf nt = Some ?nt'"
    using al(1)
    unfolding BuildPrjnGBuf_def Let_def md fst_conv snd_conv Suc_eq_plus1[symmetric] mx gz
    by (simp del: mult_Suc_right split del: if_split)
  show ?thesis
    using r al(2,3) by (intro exI[of _ ?nt']) (simp del: mult_Suc_right)
qed

text \<open>
  Claim C2, as the code has it.  \<^verbatim>\<open>Prjn.BuildGBuffs\<close> leaves a projection with a ring
  of \<^verbatim>\<open>Delay + 1\<close> slots for each receiving neuron, from the delay of that projection
  alone.  \<^verbatim>\<open>NetworkBase.BuildPrjnGBuf\<close> returns and gives every projection of every
  layer a window of (neurons of the layer) times (\<^verbatim>\<open>nt.MaxDelay\<close> + 1) slots, where
  \<^verbatim>\<open>nt.MaxDelay\<close> is the largest \<^verbatim>\<open>MaxDelay\<close> over the projections of the whole
  network, which is at least the largest over the projections that the layer receives.
  Both hold for sizes that fit a \<^verbatim>\<open>uint32\<close>.
\<close>

theorem ring_buffer_sizes:
  "(length (GBuf pj) < 2 ^ 32 \<and> Delay pj + 1 < 2 ^ 32 \<and> (Delay pj + 1) * rlen < 2 ^ 32 \<longrightarrow>
      length (GBuf (BuildGBuffs pj rlen npools)) = rlen * (Delay pj + 1)
      \<and> Len (Gidx (BuildGBuffs pj rlen npools)) = Delay pj + 1)
   \<and> (net_fits nt \<longrightarrow>
        (\<exists>nt'. BuildPrjnGBuf nt = Some nt'
           \<and> MaxDelay nt' = net_max_delay (NLayers nt)
           \<and> PrjnGBufLen nt' = prjn_neurons (NLayers nt) * (net_max_delay (NLayers nt) + 1)
           \<and> length (NLayers nt') = length (NLayers nt)
           \<and> (\<forall>i < length (NLayers nt).
                 layer_max_delay (NLayers nt ! i) \<le> net_max_delay (NLayers nt)
               \<and> NNeur (NLayers nt' ! i) = NNeur (NLayers nt ! i)
               \<and> length (RcvPrjns (NLayers nt' ! i)) = length (RcvPrjns (NLayers nt ! i))
               \<and> (\<forall>j < length (RcvPrjns (NLayers nt ! i)).
                     GBufLen (RcvPrjns (NLayers nt' ! i) ! j)
                       = NNeur (NLayers nt ! i) * (net_max_delay (NLayers nt) + 1)))))"
proof (intro conjI impI)
  assume "length (GBuf pj) < 2 ^ 32 \<and> Delay pj + 1 < 2 ^ 32 \<and> (Delay pj + 1) * rlen < 2 ^ 32"
  then show "length (GBuf (BuildGBuffs pj rlen npools)) = rlen * (Delay pj + 1)"
    and "Len (Gidx (BuildGBuffs pj rlen npools)) = Delay pj + 1"
    using BuildGBuffs_sizes[of pj rlen npools] by simp_all
next
  assume "net_fits nt"
  from BuildPrjnGBuf_sizes[OF this] obtain nt' where
    b: "BuildPrjnGBuf nt = Some nt'" "MaxDelay nt' = net_max_delay (NLayers nt)"
       "PrjnGBufLen nt' = prjn_neurons (NLayers nt) * (net_max_delay (NLayers nt) + 1)"
       "length (NLayers nt') = length (NLayers nt)"
       "\<forall>i < length (NLayers nt).
            NNeur (NLayers nt' ! i) = NNeur (NLayers nt ! i)
          \<and> length (RcvPrjns (NLayers nt' ! i)) = length (RcvPrjns (NLayers nt ! i))
          \<and> (\<forall>j < length (RcvPrjns (NLayers nt ! i)).
                GBufLen (RcvPrjns (NLayers nt' ! i) ! j)
                  = NNeur (NLayers nt ! i) * (net_max_delay (NLayers nt) + 1))"
    by blast
  show "\<exists>nt'. BuildPrjnGBuf nt = Some nt'
           \<and> MaxDelay nt' = net_max_delay (NLayers nt)
           \<and> PrjnGBufLen nt' = prjn_neurons (NLayers nt) * (net_max_delay (NLayers nt) + 1)
           \<and> length (NLayers nt') = length (NLayers nt)
           \<and> (\<forall>i < length (NLayers nt).
                 layer_max_delay (NLayers nt ! i) \<le> net_max_delay (NLayers nt)
               \<and> NNeur (NLayers nt' ! i) = NNeur (NLayers nt ! i)
               \<and> length (RcvPrjns (NLayers nt' ! i)) = length (RcvPrjns (NLayers nt ! i))
               \<and> (\<forall>j < length (RcvPrjns (NLayers nt ! i)).
                     GBufLen (RcvPrjns (NLayers nt' ! i) ! j)
                       = NNeur (NLayers nt ! i) * (net_max_delay (NLayers nt) + 1)))"
    using b layer_le_net_max_delay[of _ "NLayers nt"] by (intro exI[of _ nt']) simp
qed

theorem ring_buffer_sizes_witness:
  "net_fits toy_gnet \<and> net_max_delay (NLayers toy_gnet) = 3
   \<and> (\<exists>nt'. BuildPrjnGBuf toy_gnet = Some nt' \<and> MaxDelay nt' = 3 \<and> PrjnGBufLen nt' = 8
         \<and> GBufLen (RcvPrjns (NLayers nt' ! 0) ! 0) = 4)
   \<and> length (GBuf (BuildGBuffs toy_prjn 2 1)) = 4 \<and> Len (Gidx (BuildGBuffs toy_prjn 2 1)) = 2"
proof -
  have m: "net_max_delay (NLayers toy_gnet) = 3"
    by (simp add: net_max_delay_def layer_max_delay_def toy_gnet_def)
  have p: "prjn_neurons (NLayers toy_gnet) = 2"
    by (simp add: prjn_neurons_def toy_gnet_def)
  have f: "net_fits toy_gnet"
    by (simp add: net_fits_def m p) (simp add: toy_gnet_def)
  have g: "length (GBuf toy_prjn) < 2 ^ 32 \<and> Delay toy_prjn + 1 < 2 ^ 32
      \<and> (Delay toy_prjn + 1) * 2 < 2 ^ 32"
    by (simp add: toy_prjn_def)
  have l: "0 < length (NLayers toy_gnet)" "0 < length (RcvPrjns (NLayers toy_gnet ! 0))"
    "NNeur (NLayers toy_gnet ! 0) = 1" "Delay toy_prjn = 1"
    by (simp_all add: toy_gnet_def toy_prjn_def)
  from ring_buffer_sizes[of toy_prjn 2 1 toy_gnet] f g obtain nt' where
    b: "BuildPrjnGBuf toy_gnet = Some nt'" "MaxDelay nt' = net_max_delay (NLayers toy_gnet)"
       "PrjnGBufLen nt' = prjn_neurons (NLayers toy_gnet) * (net_max_delay (NLayers toy_gnet) + 1)"
       "\<forall>i < length (NLayers toy_gnet).
            (\<forall>j < length (RcvPrjns (NLayers toy_gnet ! i)).
                GBufLen (RcvPrjns (NLayers nt' ! i) ! j)
                  = NNeur (NLayers toy_gnet ! i) * (net_max_delay (NLayers toy_gnet) + 1))"
    and c: "length (GBuf (BuildGBuffs toy_prjn 2 1)) = 2 * (Delay toy_prjn + 1)"
       "Len (Gidx (BuildGBuffs toy_prjn 2 1)) = Delay toy_prjn + 1"
    by auto
  have "GBufLen (RcvPrjns (NLayers nt' ! 0) ! 0) = 4" using b(4) l m by simp
  then show ?thesis using f m b(1,2,3) p c l(4) by simp
qed

text \<open>
  Claim C2 as stated fails.  The first layer receives one projection, of delay 1, and
  has one neuron: \<^verbatim>\<open>BuildPrjnGBuf\<close> gives that projection 4 slots, for the delay 3 of
  a projection into the other layer, where the claim has 1 x (1 + 1) = 2.  A ring that
  \<^verbatim>\<open>Prjn.BuildGBuffs\<close> builds has the length of its own projection's delay, whatever
  the delays of the other projections into the layer.
\<close>

theorem ring_buffer_sizes_counterexample:
  "GBufLens (BuildPrjnGBuf toy_gnet) = Some [[4], [4]]
   \<and> map layer_max_delay (NLayers toy_gnet) = [1, 3]
   \<and> map NNeur (NLayers toy_gnet) = [1, 1]
   \<and> Len (Gidx (BuildGBuffs toy_prjn 2 1)) = 2
   \<and> Len (Gidx (BuildGBuffs (toy_prjn\<lparr>Delay := 3\<rparr>) 2 1)) = 4"
  by (simp add: GBufLens_def BuildPrjnGBuf_def toy_gnet_def layer_max_delay_def Let_def u32_def
      BuildGBuffs_def toy_prjn_def)

subsection \<open>Synaptic calcium: one advance in a cycle\<close>

lemma SynCaSyn_advance:
  "SynCaSyn cur fm c ca sy = (if CaUpT sy = c then sy else advance cur fm c ca sy)"
  by (simp add: SynCaSyn_def advance_def Let_def)

lemma advance_stamp: "CaUpT (advance cur fm c ca sy) = c"
  by (simp add: advance_def Let_def)

lemma at_most_once_step:
  assumes "at_most_once cur fm c sy0 sy"
  shows "at_most_once cur fm c sy0 (SynCaSyn cur fm c ca sy)"
proof (cases "sy = sy0")
  case True
  then show ?thesis by (auto simp: at_most_once_def SynCaSyn_advance)
next
  case False
  then obtain ca' where "CaUpT sy0 \<noteq> c" "sy = advance cur fm c ca' sy0"
    using assms by (auto simp: at_most_once_def)
  then show ?thesis using assms by (simp add: SynCaSyn_advance advance_stamp)
qed

lemma ca_inv_update:
  assumes "ca_inv cur fm c s0 sA syns"
  shows "ca_inv cur fm c s0 sA (syns[k := SynCaSyn cur fm c ca (syns ! k)])"
proof -
  have l: "length s0 = length syns" "length sA = length syns"
    and o: "\<forall>i < length syns. at_most_once cur fm c (s0 ! i) (syns ! i)"
    and st: "\<forall>i < length syns. CaUpT (sA ! i) = c \<longrightarrow> syns ! i = sA ! i"
    using assms by (auto simp: ca_inv_def)
  let ?s = "syns[k := SynCaSyn cur fm c ca (syns ! k)]"
  have o': "\<forall>i < length ?s. at_most_once cur fm c (s0 ! i) (?s ! i)"
  proof (intro allI impI)
    fix i assume i: "i < length ?s"
    show "at_most_once cur fm c (s0 ! i) (?s ! i)"
      using o i at_most_once_step[of cur fm c "s0 ! i" "syns ! i" ca]
      by (cases "i = k") simp_all
  qed
  have st': "\<forall>i < length ?s. CaUpT (sA ! i) = c \<longrightarrow> ?s ! i = sA ! i"
  proof (intro allI impI)
    fix i assume i: "i < length ?s" and s: "CaUpT (sA ! i) = c"
    have e: "syns ! i = sA ! i" using st i s by simp
    show "?s ! i = sA ! i"
      using i e s by (cases "i = k") (simp_all add: SynCaSyn_advance)
  qed
  show ?thesis using l o' st' by (simp add: ca_inv_def)
qed

lemma SendSynCaLoop_inv:
  "ca_inv cur fm c s0 sA syns \<Longrightarrow> SendSynCaLoop cur fm c pj rneur sca scons k syns = Some syns'
   \<Longrightarrow> ca_inv cur fm c s0 sA syns'"
proof (induction scons arbitrary: k syns)
  case Nil
  then show ?case by simp
next
  case (Cons ri scons)
  from Cons.prems(2) obtain rn where rn: "ixn rneur ri = Some rn"
    by (auto split: option.splits)
  show ?case
  proof (cases "below_thr pj rn")
    case True
    then show ?thesis using Cons rn by simp
  next
    case False
    then have "SendSynCaLoop cur fm c pj rneur sca scons (Suc k)
        (syns[k := SynCaSyn cur fm c (sca * CaSyn rn) (syns ! k)]) = Some syns'"
      using Cons.prems(2) rn by simp
    then show ?thesis using Cons.IH ca_inv_update[OF Cons.prems(1)] by blast
  qed
qed

lemma SendSynCaNeurons_inv:
  "ca_inv cur fm c s0 sA syns \<Longrightarrow> SendSynCaNeurons cur fm c pj rneur ssg sneur si syns = Some syns'
   \<Longrightarrow> ca_inv cur fm c s0 sA syns'"
proof (induction sneur arbitrary: si syns)
  case Nil
  then show ?case by simp
next
  case (Cons sn sneur)
  show ?case
  proof (cases "NSpike sn = 0 \<or> below_thr pj sn")
    case True
    then have "SendSynCaNeurons cur fm c pj rneur ssg sneur (Suc si) syns = Some syns'"
      using Cons.prems(2) by (auto split: if_splits)
    then show ?thesis using Cons.IH Cons.prems(1) by blast
  next
    case False
    from Cons.prems(2) False obtain nc st scons syns1 where
      a: "SendSynCaLoop cur fm c pj rneur (ssg * CaSyn sn) scons st syns = Some syns1"
         "SendSynCaNeurons cur fm c pj rneur ssg sneur (Suc si) syns1 = Some syns'"
      by (auto split: option.splits if_splits)
    from SendSynCaLoop_inv[OF Cons.prems(1) a(1)] have "ca_inv cur fm c s0 sA syns1" .
    then show ?thesis using Cons.IH a(2) by blast
  qed
qed

lemma RecvSynCaLoop_inv:
  "ca_inv cur fm c s0 sA syns \<Longrightarrow> RecvSynCaLoop cur fm c pj sneur rca cs syns = Some syns'
   \<Longrightarrow> ca_inv cur fm c s0 sA syns'"
proof (induction cs arbitrary: syns)
  case Nil
  then show ?case by simp
next
  case (Cons x cs)
  from Cons.prems(2) obtain sn where sn: "ixn sneur (snd x) = Some sn"
    by (auto split: option.splits)
  show ?case
  proof (cases "below_thr pj sn")
    case True
    then show ?thesis using Cons sn by simp
  next
    case False
    then have "RecvSynCaLoop cur fm c pj sneur rca cs
        (syns[fst x := SynCaSyn cur fm c (CaSyn sn * rca) (syns ! fst x)]) = Some syns'"
      using Cons.prems(2) sn by (auto split: if_splits)
    then show ?thesis using Cons.IH ca_inv_update[OF Cons.prems(1)] by blast
  qed
qed

lemma RecvSynCaNeurons_inv:
  "ca_inv cur fm c s0 sA syns \<Longrightarrow> RecvSynCaNeurons cur fm c pj sneur ssg rneur ri syns = Some syns'
   \<Longrightarrow> ca_inv cur fm c s0 sA syns'"
proof (induction rneur arbitrary: ri syns)
  case Nil
  then show ?case by simp
next
  case (Cons rn rneur)
  show ?case
  proof (cases "NSpike rn = 0 \<or> below_thr pj rn")
    case True
    then have "RecvSynCaNeurons cur fm c pj sneur ssg rneur (Suc ri) syns = Some syns'"
      using Cons.prems(2) by (auto split: if_splits)
    then show ?thesis using Cons.IH Cons.prems(1) by blast
  next
    case False
    from Cons.prems(2) False obtain cs syns1 where
      a: "RecvSynCaLoop cur fm c pj sneur (ssg * CaSyn rn) cs syns = Some syns1"
         "RecvSynCaNeurons cur fm c pj sneur ssg rneur (Suc ri) syns1 = Some syns'"
      by (auto split: option.splits if_splits)
    from RecvSynCaLoop_inv[OF Cons.prems(1) a(1)] have "ca_inv cur fm c s0 sA syns1" .
    then show ?thesis using Cons.IH a(2) by blast
  qed
qed

lemma ca_inv_start: "length s0 = length s \<Longrightarrow>
    \<forall>i < length s. at_most_once cur fm c (s0 ! i) (s ! i) \<Longrightarrow> ca_inv cur fm c s0 s s"
  by (simp add: ca_inv_def)

lemma at_most_once_refl: "at_most_once cur fm c sy sy"
  by (simp add: at_most_once_def)

lemma toy_send:
  "SendSynCa toy_cur toy_fm 5 1 [spiking, spiking\<lparr>NSpike := 0\<rparr>] [spiking, spiking] toy_prjn
     = Some (toy_prjn\<lparr>Syns := [syn0\<lparr>CaUpT := 5, Ca := 12, CaM := 1, CaP := 12\<rparr>,
                                syn0\<lparr>Wt := 2, CaUpT := 5, Ca := 12, CaM := 1, CaP := 12\<rparr>,
                                syn0\<lparr>Wt := 3\<rparr>, syn0\<lparr>Wt := 4\<rparr>]\<rparr>)"
  by (simp add: SendSynCa_def toy_prjn_def ixn_def slice_def below_thr_def spiking_def
      SynCaSyn_def toy_cur_def toy_fm_def syn0_def Let_def)

lemma toy_recv:
  "RecvSynCa toy_cur toy_fm 5 1 [spiking, spiking\<lparr>NSpike := 0\<rparr>] [spiking, spiking]
     (toy_prjn\<lparr>Syns := [syn0\<lparr>CaUpT := 5, Ca := 12, CaM := 1, CaP := 12\<rparr>,
                                syn0\<lparr>Wt := 2, CaUpT := 5, Ca := 12, CaM := 1, CaP := 12\<rparr>,
                                syn0\<lparr>Wt := 3\<rparr>, syn0\<lparr>Wt := 4\<rparr>]\<rparr>)
     = Some (toy_prjn\<lparr>Syns := [syn0\<lparr>CaUpT := 5, Ca := 12, CaM := 1, CaP := 12\<rparr>,
                                syn0\<lparr>Wt := 2, CaUpT := 5, Ca := 12, CaM := 1, CaP := 12\<rparr>,
                                syn0\<lparr>Wt := 3, CaUpT := 5, Ca := 12, CaM := 1, CaP := 12\<rparr>,
                                syn0\<lparr>Wt := 4, CaUpT := 5, Ca := 12, CaM := 1, CaP := 12\<rparr>]\<rparr>)"
  by (simp add: RecvSynCa_def toy_prjn_def ixn_def slice_def below_thr_def spiking_def
      SynCaSyn_def toy_cur_def toy_fm_def syn0_def Let_def)

text \<open>
  Claim C3.  In a cycle the calcium cascade of a synapse is advanced at most once.  When
  the sender pass \<^verbatim>\<open>SendSynCa\<close> and then the receiver pass \<^verbatim>\<open>RecvSynCa\<close> of cycle
  \<open>cycTot\<close> both return, every synapse is, after the two passes, either as it was
  before them or as it was before them with one advance of \<^verbatim>\<open>(CaM, CaP, CaD)\<close>, and
  that only if it did not bear the stamp of the cycle; and a synapse that the sender
  pass changed is left as it is by the receiver pass: its stamp \<^verbatim>\<open>CaUpT\<close> makes the
  second pass skip it.
\<close>

theorem calcium_advances_at_most_once:
  assumes "SendSynCa cur fm cycTot synSpkG sneur rneur pj = Some pj1"
    and "RecvSynCa cur fm cycTot synSpkG sneur rneur pj1 = Some pj2"
  shows "length (Syns pj2) = length (Syns pj)
     \<and> (\<forall>i < length (Syns pj).
           at_most_once cur fm cycTot (Syns pj ! i) (Syns pj2 ! i)
         \<and> (Syns pj1 ! i \<noteq> Syns pj ! i \<longrightarrow> Syns pj2 ! i = Syns pj1 ! i))"
proof -
  have i0: "ca_inv cur fm cycTot (Syns pj) (Syns pj) (Syns pj)"
    by (simp add: ca_inv_start at_most_once_refl)
  have i1: "ca_inv cur fm cycTot (Syns pj) (Syns pj) (Syns pj1)"
  proof (cases "Learn pj")
    case True
    then obtain syns where "SendSynCaNeurons cur fm cycTot pj rneur (SpikeG pj * synSpkG) sneur 0 (Syns pj) = Some syns"
      "pj1 = pj\<lparr>Syns := syns\<rparr>"
      using assms(1) by (auto simp: SendSynCa_def split: option.splits)
    then show ?thesis using SendSynCaNeurons_inv[OF i0] by auto
  next
    case False
    then show ?thesis using assms(1) i0 by (simp add: SendSynCa_def)
  qed
  then have l1: "length (Syns pj) = length (Syns pj1)"
    and o1: "\<forall>i < length (Syns pj1). at_most_once cur fm cycTot (Syns pj ! i) (Syns pj1 ! i)"
    by (auto simp: ca_inv_def)
  have j1: "ca_inv cur fm cycTot (Syns pj) (Syns pj1) (Syns pj1)"
    using l1 o1 by (simp add: ca_inv_start)
  have i2: "ca_inv cur fm cycTot (Syns pj) (Syns pj1) (Syns pj2)"
  proof (cases "Learn pj1")
    case True
    then obtain syns where "RecvSynCaNeurons cur fm cycTot pj1 sneur (SpikeG pj1 * synSpkG) rneur 0 (Syns pj1) = Some syns"
      "pj2 = pj1\<lparr>Syns := syns\<rparr>"
      using assms(2) by (auto simp: RecvSynCa_def split: option.splits)
    then show ?thesis using RecvSynCaNeurons_inv[OF j1] by auto
  next
    case False
    then show ?thesis using assms(2) j1 by (simp add: RecvSynCa_def)
  qed
  then have l2: "length (Syns pj) = length (Syns pj2)" "length (Syns pj1) = length (Syns pj2)"
    and o2: "\<forall>i < length (Syns pj2). at_most_once cur fm cycTot (Syns pj ! i) (Syns pj2 ! i)"
    and s2: "\<forall>i < length (Syns pj2). CaUpT (Syns pj1 ! i) = cycTot \<longrightarrow> Syns pj2 ! i = Syns pj1 ! i"
    by (auto simp: ca_inv_def)
  have "\<forall>i < length (Syns pj). Syns pj1 ! i \<noteq> Syns pj ! i \<longrightarrow> Syns pj2 ! i = Syns pj1 ! i"
  proof (intro allI impI)
    fix i assume i: "i < length (Syns pj)" and ne: "Syns pj1 ! i \<noteq> Syns pj ! i"
    have "at_most_once cur fm cycTot (Syns pj ! i) (Syns pj1 ! i)" using o1 i l1 by simp
    then obtain ca where "Syns pj1 ! i = advance cur fm cycTot ca (Syns pj ! i)"
      using ne by (auto simp: at_most_once_def)
    then have "CaUpT (Syns pj1 ! i) = cycTot" by (simp add: advance_stamp)
    then show "Syns pj2 ! i = Syns pj1 ! i" using s2 i l2 by simp
  qed
  then show ?thesis using l2 o2 by simp
qed

text \<open>
  Full connectivity between two senders and two receivers, all above threshold, the
  second sender without a spike: the sender pass advances the two synapses of the first
  sender, the receiver pass reaches all four and advances the other two only.
\<close>

theorem calcium_advances_at_most_once_witness:
  "\<exists>pj1 pj2.
     SendSynCa toy_cur toy_fm 5 1 [spiking, spiking\<lparr>NSpike := 0\<rparr>] [spiking, spiking] toy_prjn = Some pj1
   \<and> RecvSynCa toy_cur toy_fm 5 1 [spiking, spiking\<lparr>NSpike := 0\<rparr>] [spiking, spiking] pj1 = Some pj2
   \<and> map CaM (Syns toy_prjn) = [0, 0, 0, 0]
   \<and> map CaM (Syns pj1) = [1, 1, 0, 0]
   \<and> map CaM (Syns pj2) = [1, 1, 1, 1]
   \<and> Syns pj2 ! 0 = Syns pj1 ! 0
   \<and> at_most_once toy_cur toy_fm 5 (Syns toy_prjn ! 3) (Syns pj2 ! 3)"
proof -
  let ?pj1 = "toy_prjn\<lparr>Syns := [syn0\<lparr>CaUpT := 5, Ca := 12, CaM := 1, CaP := 12\<rparr>,
                                syn0\<lparr>Wt := 2, CaUpT := 5, Ca := 12, CaM := 1, CaP := 12\<rparr>,
                                syn0\<lparr>Wt := 3\<rparr>, syn0\<lparr>Wt := 4\<rparr>]\<rparr>"
  let ?pj2 = "toy_prjn\<lparr>Syns := [syn0\<lparr>CaUpT := 5, Ca := 12, CaM := 1, CaP := 12\<rparr>,
                                syn0\<lparr>Wt := 2, CaUpT := 5, Ca := 12, CaM := 1, CaP := 12\<rparr>,
                                syn0\<lparr>Wt := 3, CaUpT := 5, Ca := 12, CaM := 1, CaP := 12\<rparr>,
                                syn0\<lparr>Wt := 4, CaUpT := 5, Ca := 12, CaM := 1, CaP := 12\<rparr>]\<rparr>"
  have l: "length (Syns toy_prjn) = 4" by (simp add: toy_prjn_def)
  have ne: "Syns ?pj1 ! 0 \<noteq> Syns toy_prjn ! 0" by (simp add: toy_prjn_def syn0_def)
  from calcium_advances_at_most_once[OF toy_send toy_recv] l
  have a: "\<forall>i < 4. at_most_once toy_cur toy_fm 5 (Syns toy_prjn ! i) (Syns ?pj2 ! i)
         \<and> (Syns ?pj1 ! i \<noteq> Syns toy_prjn ! i \<longrightarrow> Syns ?pj2 ! i = Syns ?pj1 ! i)"
    by simp
  have z: "(0::nat) < 4" "(3::nat) < 4" by simp_all
  have a0: "Syns ?pj2 ! 0 = Syns ?pj1 ! 0" by (rule mp[OF conjunct2[OF mp[OF spec[OF a, of 0] z(1)]] ne])
  have a3: "at_most_once toy_cur toy_fm 5 (Syns toy_prjn ! 3) (Syns ?pj2 ! 3)"
    by (rule conjunct1[OF mp[OF spec[OF a, of 3] z(2)]])
  have m: "map CaM (Syns toy_prjn) = [0, 0, 0, 0]" "map CaM (Syns ?pj1) = [1, 1, 0, 0]"
    "map CaM (Syns ?pj2) = [1, 1, 1, 1]"
    by (simp_all add: toy_prjn_def syn0_def)
  show ?thesis
    apply (rule exI[of _ ?pj1], rule exI[of _ ?pj2])
    apply (intro conjI)
          apply (rule toy_send)
         apply (rule toy_recv)
        apply (rule m(1))
       apply (rule m(2))
      apply (rule m(3))
     apply (rule a0)
    apply (rule a3)
    done
qed

subsection \<open>The weights file: saving and loading back\<close>

lemma SynIdx_same_send: "same_send pj1 pj \<Longrightarrow> SynIdx pj1 s r = SynIdx pj s r"
  by (simp add: SynIdx_def same_send_def cong: option.case_cong)

lemma SetSynVal_SWt:
  assumes "SynIdx pj s r = Some (int k)" and "k < length (Syns pj)"
  shows "SetSynVal lwt pj ''SWt'' s r v
     = Some (pj\<lparr>Syns := (Syns pj)[k := (Syns pj ! k)\<lparr>SWt := v\<rparr>]\<rparr>, False)"
  using assms
  by (simp add: SetSynVal_def SynapseVarByName_def SynapseVars_def SetVarByIndex_def)

lemma SetSynVal_Wt:
  assumes "SynIdx pj s r = Some (int k)" and "k < length (Syns pj)"
  shows "SetSynVal lwt pj ''Wt'' s r v
     = Some (pj\<lparr>Syns := (Syns pj)[k := loaded lwt v (SWt (Syns pj ! k)) (Syns pj ! k)]\<rparr>, False)"
  using assms
  by (simp add: SetSynVal_def SynapseVarByName_def SynapseVars_def SetVarByIndex_def loaded_def
      Let_def)

lemma SynIdx_Syns: "SynIdx (pj\<lparr>Syns := x\<rparr>) s r = SynIdx pj s r"
  by (simp add: SynIdx_def cong: option.case_cong)

lemma loaded_SWt: "loaded lwt w w1 (sy\<lparr>SWt := w1\<rparr>) = loaded lwt w w1 sy"
  by (simp add: loaded_def)

lemma restored_loaded:
  "k < length syns \<Longrightarrow> restored W W1 (syns[k := loaded lwt (W k) (W1 k) (syns ! k)]) k"
  by (simp add: restored_def loaded_def)

lemma restored_other:
  "j \<noteq> k \<Longrightarrow> restored W W1 (syns[k := sy]) j = restored W W1 syns j"
  by (simp add: restored_def)

lemma SetWts_step:
  assumes "SynIdx pj s r = Some (int k)" and "k < length (Syns pj)"
  shows "\<exists>pj1. SetSynVal lwt pj ''SWt'' s r w1 = Some (pj1, False)
       \<and> SetSynVal lwt pj1 ''Wt'' s r w
           = Some (pj\<lparr>Syns := (Syns pj)[k := loaded lwt w w1 (Syns pj ! k)]\<rparr>, False)"
proof -
  let ?pj1 = "pj\<lparr>Syns := (Syns pj)[k := (Syns pj ! k)\<lparr>SWt := w1\<rparr>]\<rparr>"
  have a: "SetSynVal lwt pj ''SWt'' s r w1 = Some (?pj1, False)"
    by (rule SetSynVal_SWt[OF assms])
  have i: "SynIdx ?pj1 s r = Some (int k)" using assms(1) by (simp add: SynIdx_Syns)
  have l: "k < length (Syns ?pj1)" using assms(2) by simp
  have "SetSynVal lwt ?pj1 ''Wt'' s r w
     = Some (?pj1\<lparr>Syns := (Syns ?pj1)[k := loaded lwt w (SWt (Syns ?pj1 ! k)) (Syns ?pj1 ! k)]\<rparr>, False)"
    by (rule SetSynVal_Wt[OF i l])
  also have "\<dots> = Some (pj\<lparr>Syns := (Syns pj)[k := loaded lwt w w1 (Syns pj ! k)]\<rparr>, False)"
    using assms(2) by (simp add: loaded_SWt)
  finally show ?thesis using a by blast
qed

lemma SetWtsSiLoop_spec:
  assumes "length (Recv_Si pr) \<le> length (Recv_Wt1 pr)"
    and "length (Recv_Si pr) \<le> length (Recv_Wt pr)"
    and "\<forall>i < length (Recv_Si pr). \<exists>k < length (Syns pj0).
            SynIdx pj0 (Recv_Si pr ! i) (Recv_Ri pr) = Some (int k)
          \<and> Recv_Wt pr ! i = W k \<and> Recv_Wt1 pr ! i = W1 k"
    and "same_send pj pj0"
    and "ss = drop si (Recv_Si pr)"
    and "\<forall>k. D k \<longrightarrow> restored W W1 (Syns pj) k"
  shows "\<exists>pj2. SetWtsSiLoop lwt pr ss si pj err = Some (pj2, err) \<and> same_send pj2 pj0
     \<and> (\<forall>k. D k \<or> (\<exists>i \<ge> si. i < length (Recv_Si pr)
                     \<and> SynIdx pj0 (Recv_Si pr ! i) (Recv_Ri pr) = Some (int k))
            \<longrightarrow> restored W W1 (Syns pj2) k)"
  using assms(4-6)
proof (induction ss arbitrary: si pj D)
  case Nil
  then have "length (Recv_Si pr) \<le> si" by simp
  then show ?case using Nil by auto
next
  case (Cons s ss)
  have si: "si < length (Recv_Si pr)"
  proof (rule ccontr)
    assume "\<not> si < length (Recv_Si pr)"
    then have "drop si (Recv_Si pr) = []" by simp
    then show False using Cons.prems(2) by simp
  qed
  then have "Recv_Si pr ! si # drop (Suc si) (Recv_Si pr) = drop si (Recv_Si pr)"
    by (rule Cons_nth_drop_Suc)
  then have "s # ss = Recv_Si pr ! si # drop (Suc si) (Recv_Si pr)"
    using Cons.prems(2) by simp
  then have s: "s = Recv_Si pr ! si" and ss: "ss = drop (Suc si) (Recv_Si pr)"
    by simp_all
  from assms(3) si obtain k where k: "k < length (Syns pj0)"
      "SynIdx pj0 (Recv_Si pr ! si) (Recv_Ri pr) = Some (int k)"
      "Recv_Wt pr ! si = W k" "Recv_Wt1 pr ! si = W1 k"
    by blast
  have kl: "k < length (Syns pj)" using k(1) Cons.prems(1) by (simp add: same_send_def)
  have ki: "SynIdx pj s (Recv_Ri pr) = Some (int k)"
    using k(2) s SynIdx_same_send[OF Cons.prems(1)] by simp
  let ?pj1 = "pj\<lparr>Syns := (Syns pj)[k := loaded lwt (W k) (W1 k) (Syns pj ! k)]\<rparr>"
  from SetWts_step[OF ki kl, of lwt "W1 k" "W k"] obtain pjA where
    st: "SetSynVal lwt pj ''SWt'' s (Recv_Ri pr) (W1 k) = Some (pjA, False)"
        "SetSynVal lwt pjA ''Wt'' s (Recv_Ri pr) (W k) = Some (?pj1, False)"
    by blast
  have step: "SetWtsSiLoop lwt pr (s # ss) si pj err = SetWtsSiLoop lwt pr ss (Suc si) ?pj1 err"
    using si assms(1,2) k(3,4) st by (simp add: ixn_def)
  have ss1: "same_send ?pj1 pj0" using Cons.prems(1) by (simp add: same_send_def)
  have r1: "\<forall>j. (D j \<or> j = k) \<longrightarrow> restored W W1 (Syns ?pj1) j"
  proof (intro allI impI)
    fix j assume j: "D j \<or> j = k"
    show "restored W W1 (Syns ?pj1) j"
    proof (cases "j = k")
      case True
      then show ?thesis using kl by (simp add: restored_loaded)
    next
      case False
      then show ?thesis using j Cons.prems(3) by (simp add: restored_other)
    qed
  qed
  from Cons.IH[OF ss1 ss r1] obtain pj2 where
    p: "SetWtsSiLoop lwt pr ss (Suc si) ?pj1 err = Some (pj2, err)" "same_send pj2 pj0"
       "\<forall>j. (D j \<or> j = k) \<or> (\<exists>i \<ge> Suc si. i < length (Recv_Si pr)
                     \<and> SynIdx pj0 (Recv_Si pr ! i) (Recv_Ri pr) = Some (int j))
            \<longrightarrow> restored W W1 (Syns pj2) j"
    by blast
  have "\<forall>j. D j \<or> (\<exists>i \<ge> si. i < length (Recv_Si pr)
                     \<and> SynIdx pj0 (Recv_Si pr ! i) (Recv_Ri pr) = Some (int j))
            \<longrightarrow> restored W W1 (Syns pj2) j"
  proof (intro allI impI)
    fix j assume "D j \<or> (\<exists>i \<ge> si. i < length (Recv_Si pr)
                     \<and> SynIdx pj0 (Recv_Si pr ! i) (Recv_Ri pr) = Some (int j))"
    then consider "D j" | i where "i \<ge> si" "i < length (Recv_Si pr)"
        "SynIdx pj0 (Recv_Si pr ! i) (Recv_Ri pr) = Some (int j)"
      by blast
    then show "restored W W1 (Syns pj2) j"
    proof cases
      case 1
      then show ?thesis using p(3) by blast
    next
      case 2
      show ?thesis
      proof (cases "i = si")
        case True
        then have "j = k" using 2(3) k(2) by simp
        then show ?thesis using p(3) by blast
      next
        case False
        then have "Suc si \<le> i" using 2(1) by simp
        then show ?thesis using p(3) 2(2,3) by blast
      qed
    qed
  qed
  then show ?case using step p(1,2) by simp
qed

lemma SetWtsRsLoop_spec:
  assumes "\<forall>pr \<in> set prs. length (Recv_Si pr) \<le> length (Recv_Wt1 pr)
          \<and> length (Recv_Si pr) \<le> length (Recv_Wt pr)
          \<and> (\<forall>i < length (Recv_Si pr). \<exists>k < length (Syns pj0).
                SynIdx pj0 (Recv_Si pr ! i) (Recv_Ri pr) = Some (int k)
              \<and> Recv_Wt pr ! i = W k \<and> Recv_Wt1 pr ! i = W1 k)"
    and "same_send pj pj0"
    and "\<forall>k. D k \<longrightarrow> restored W W1 (Syns pj) k"
  shows "\<exists>pj2. SetWtsRsLoop lwt prs pj err = Some (pj2, err) \<and> same_send pj2 pj0
     \<and> (\<forall>k. D k \<or> (\<exists>pr \<in> set prs. \<exists>i < length (Recv_Si pr).
                       SynIdx pj0 (Recv_Si pr ! i) (Recv_Ri pr) = Some (int k))
            \<longrightarrow> restored W W1 (Syns pj2) k)"
  using assms
proof (induction prs arbitrary: pj D)
  case Nil
  then show ?case by simp
next
  case (Cons pr prs)
  let ?Q = "\<lambda>pr k. \<exists>i < length (Recv_Si pr).
                       SynIdx pj0 (Recv_Si pr ! i) (Recv_Ri pr) = Some (int k)"
  let ?E = "\<lambda>k. D k \<or> ?Q pr k"
  have a: "length (Recv_Si pr) \<le> length (Recv_Wt1 pr)" "length (Recv_Si pr) \<le> length (Recv_Wt pr)"
    "\<forall>i < length (Recv_Si pr). \<exists>k < length (Syns pj0).
                SynIdx pj0 (Recv_Si pr ! i) (Recv_Ri pr) = Some (int k)
              \<and> Recv_Wt pr ! i = W k \<and> Recv_Wt1 pr ! i = W1 k"
    using Cons.prems(1) by simp_all
  have d: "Recv_Si pr = drop 0 (Recv_Si pr)" by simp
  from SetWtsSiLoop_spec[OF a Cons.prems(2) d Cons.prems(3), of lwt err]
  have "\<exists>pj1. SetWtsSiLoop lwt pr (Recv_Si pr) 0 pj err = Some (pj1, err) \<and> same_send pj1 pj0
       \<and> (\<forall>k. ?E k \<longrightarrow> restored W W1 (Syns pj1) k)"
    by simp
  then obtain pj1 where p0: "SetWtsSiLoop lwt pr (Recv_Si pr) 0 pj err = Some (pj1, err)
       \<and> same_send pj1 pj0 \<and> (\<forall>k. ?E k \<longrightarrow> restored W W1 (Syns pj1) k)" ..
  note p1 = conjunct1[OF p0] and p2 = conjunct1[OF conjunct2[OF p0]]
    and p3 = conjunct2[OF conjunct2[OF p0]]
  have r: "\<forall>pr \<in> set prs. length (Recv_Si pr) \<le> length (Recv_Wt1 pr)
          \<and> length (Recv_Si pr) \<le> length (Recv_Wt pr)
          \<and> (\<forall>i < length (Recv_Si pr). \<exists>k < length (Syns pj0).
                SynIdx pj0 (Recv_Si pr ! i) (Recv_Ri pr) = Some (int k)
              \<and> Recv_Wt pr ! i = W k \<and> Recv_Wt1 pr ! i = W1 k)"
    using Cons.prems(1) by simp
  from Cons.IH[OF r p2 p3] obtain pj2 where
    q0: "SetWtsRsLoop lwt prs pj1 err = Some (pj2, err) \<and> same_send pj2 pj0
       \<and> (\<forall>k. ?E k \<or> (\<exists>pr \<in> set prs. ?Q pr k) \<longrightarrow> restored W W1 (Syns pj2) k)" ..
  note q1 = conjunct1[OF q0] and q2 = conjunct1[OF conjunct2[OF q0]]
    and q3 = conjunct2[OF conjunct2[OF q0]]
  have g: "\<forall>k. D k \<or> (\<exists>pr' \<in> set (pr # prs). ?Q pr' k) \<longrightarrow> restored W W1 (Syns pj2) k"
    using q3 by simp
  have "SetWtsRsLoop lwt (pr # prs) pj err = Some (pj2, err)"
    using p1 q1 by simp
  then show ?case using q2 g by blast
qed

lemma WriteSiLoop_spec:
  "\<forall>i < n. k + i < length (RecvConIdx pj)
   \<Longrightarrow> WriteSiLoop pj k n = Some (map (\<lambda>i. int (RecvConIdx pj ! (k + i))) [0..<n])"
proof (induction n arbitrary: k)
  case 0
  then show ?case by simp
next
  case (Suc n)
  have "\<forall>i < n. Suc k + i < length (RecvConIdx pj)" using Suc.prems by auto
  from Suc.IH[OF this] have "WriteSiLoop pj (Suc k) n
      = Some (map (\<lambda>i. int (RecvConIdx pj ! (k + Suc i))) [0..<n])" by simp
  moreover have "k < length (RecvConIdx pj)" using Suc.prems by force
  ultimately show ?case by (simp add: ixn_def map_upt_Suc del: upt_Suc)
qed

lemma WriteWtLoop_spec:
  "\<forall>i < n. k + i < length (RecvSynIdx pj) \<and> RecvSynIdx pj ! (k + i) < length (Syns pj)
   \<Longrightarrow> WriteWtLoop f pj k n = Some (map (\<lambda>i. f (Syns pj ! (RecvSynIdx pj ! (k + i)))) [0..<n])"
proof (induction n arbitrary: k)
  case 0
  then show ?case by simp
next
  case (Suc n)
  have "\<forall>i < n. Suc k + i < length (RecvSynIdx pj) \<and> RecvSynIdx pj ! (Suc k + i) < length (Syns pj)"
    using Suc.prems by auto
  from Suc.IH[OF this] have "WriteWtLoop f pj (Suc k) n
      = Some (map (\<lambda>i. f (Syns pj ! (RecvSynIdx pj ! (k + Suc i)))) [0..<n])" by simp
  moreover have "k < length (RecvSynIdx pj) \<and> RecvSynIdx pj ! k < length (Syns pj)"
    using Suc.prems by force
  ultimately show ?case by (simp add: ixn_def map_upt_Suc del: upt_Suc)
qed

lemma WriteRsLoop_spec:
  assumes "con_ok pj nr"
  shows "ri + n \<le> nr \<Longrightarrow> WriteRsLoop rt pj ri n = Some (map (recv_of rt pj) [ri..<ri + n])"
proof (induction n arbitrary: ri)
  case 0
  then show ?case by simp
next
  case (Suc n)
  have ri: "ri < nr" using Suc.prems by simp
  then have l: "ri < length (RecvConN pj)" "ri < length (RecvConIdxStart pj)"
    using assms by (simp_all add: con_ok_def)
  have e: "\<forall>ci < RecvConN pj ! ri.
            RecvConIdxStart pj ! ri + ci < length (RecvConIdx pj)
          \<and> RecvConIdxStart pj ! ri + ci < length (RecvSynIdx pj)
          \<and> RecvSynIdx pj ! (RecvConIdxStart pj ! ri + ci) < length (Syns pj)"
    using assms ri by (simp add: con_ok_def recv_entry_def)
  have a: "WriteSiLoop pj (RecvConIdxStart pj ! ri) (RecvConN pj ! ri) = Some (Recv_Si (recv_of rt pj ri))"
    using e by (simp add: WriteSiLoop_spec recv_of_def recv_entry_def)
  have b: "WriteWtLoop (\<lambda>sy. rt (Wt sy)) pj (RecvConIdxStart pj ! ri) (RecvConN pj ! ri)
      = Some (Recv_Wt (recv_of rt pj ri))"
    using e by (simp add: WriteWtLoop_spec recv_of_def recv_entry_def)
  have c: "WriteWtLoop (\<lambda>sy. rt (SWt sy)) pj (RecvConIdxStart pj ! ri) (RecvConN pj ! ri)
      = Some (Recv_Wt1 (recv_of rt pj ri))"
    using e by (simp add: WriteWtLoop_spec recv_of_def recv_entry_def)
  have r: "WriteRsLoop rt pj (Suc ri) n = Some (map (recv_of rt pj) [Suc ri..<Suc ri + n])"
    using Suc.IH[of "Suc ri"] Suc.prems by simp
  have u: "[ri..<ri + Suc n] = ri # [Suc ri..<Suc ri + n]"
    by (simp add: upt_rec)
  have m: "\<lparr>Recv_Ri = int ri, Recv_N = int (RecvConN pj ! ri),
      Recv_Si = Recv_Si (recv_of rt pj ri), Recv_Wt = Recv_Wt (recv_of rt pj ri),
      Recv_Wt1 = Recv_Wt1 (recv_of rt pj ri)\<rparr> = recv_of rt pj ri"
    by (simp add: recv_of_def)
  show ?case
    unfolding u using l a b c r m by (simp add: ixn_def)
qed

lemma recv_of_entries:
  assumes "con_ok pj nr" and "ri < nr"
  shows "length (Recv_Si (recv_of rt pj ri)) \<le> length (Recv_Wt1 (recv_of rt pj ri))
     \<and> length (Recv_Si (recv_of rt pj ri)) \<le> length (Recv_Wt (recv_of rt pj ri))
     \<and> (\<forall>i < length (Recv_Si (recv_of rt pj ri)). \<exists>k < length (Syns pj).
            SynIdx pj (Recv_Si (recv_of rt pj ri) ! i) (Recv_Ri (recv_of rt pj ri)) = Some (int k)
          \<and> Recv_Wt (recv_of rt pj ri) ! i = rt (Wt (Syns pj ! k))
          \<and> Recv_Wt1 (recv_of rt pj ri) ! i = rt (SWt (Syns pj ! k)))"
proof (intro conjI allI impI)
  show "length (Recv_Si (recv_of rt pj ri)) \<le> length (Recv_Wt1 (recv_of rt pj ri))"
    by (simp add: recv_of_def)
  show "length (Recv_Si (recv_of rt pj ri)) \<le> length (Recv_Wt (recv_of rt pj ri))"
    by (simp add: recv_of_def)
next
  fix i assume "i < length (Recv_Si (recv_of rt pj ri))"
  then have i: "i < RecvConN pj ! ri" by (simp add: recv_of_def)
  let ?k = "RecvSynIdx pj ! recv_entry pj ri i"
  from assms i have "?k < length (Syns pj)"
    and "SynIdx pj (int (RecvConIdx pj ! recv_entry pj ri i)) (int ri) = Some (int ?k)"
    unfolding con_ok_def by blast+
  then have "?k < length (Syns pj)
      \<and> SynIdx pj (Recv_Si (recv_of rt pj ri) ! i) (Recv_Ri (recv_of rt pj ri)) = Some (int ?k)
      \<and> Recv_Wt (recv_of rt pj ri) ! i = rt (Wt (Syns pj ! ?k))
      \<and> Recv_Wt1 (recv_of rt pj ri) ! i = rt (SWt (Syns pj ! ?k))"
    using i by (simp add: recv_of_def)
  then show "\<exists>k < length (Syns pj).
            SynIdx pj (Recv_Si (recv_of rt pj ri) ! i) (Recv_Ri (recv_of rt pj ri)) = Some (int k)
          \<and> Recv_Wt (recv_of rt pj ri) ! i = rt (Wt (Syns pj ! k))
          \<and> Recv_Wt1 (recv_of rt pj ri) ! i = rt (SWt (Syns pj ! k))"
    by (rule_tac x = ?k in exI)
qed

lemma toy_con_ok: "con_ok toy_prjn 2"
  by code_simp

text \<open>
  Claim C6, amended.  Let the two sides of the connectivity of the projection \<open>pj\<close>
  agree, and let \<open>pj1\<close> be a projection with the sender-side connectivity of \<open>pj\<close>.
  Then \<^verbatim>\<open>WriteWtsJSON\<close> on \<open>pj\<close> followed by \<^verbatim>\<open>SetWts\<close> on \<open>pj1\<close> returns without an
  error and leaves every synapse with the weight \<^verbatim>\<open>Wt\<close> that the text of the file
  reads back as, and with the structural weight \<^verbatim>\<open>SWt\<close> that the text reads back as
  when that is not 0; when it is 0, \<^verbatim>\<open>SWt\<close> is the weight \<^verbatim>\<open>Wt\<close> of the file.  So
  the round trip is lossless for \<^verbatim>\<open>Wt\<close>, and for \<^verbatim>\<open>SWt\<close> of the synapses whose
  structural weight is not 0, where the text reads back as the number written
  (\<open>rt x = x\<close>).
\<close>

theorem weights_round_trip:
  assumes "con_ok pj nr" and "same_send pj1 pj"
  shows "\<exists>pj2. SaveLoad rt lwt nr nm pj pj1 = Some (pj2, False)
     \<and> length (Syns pj2) = length (Syns pj)
     \<and> (\<forall>k < length (Syns pj).
          Wt (Syns pj2 ! k) = rt (Wt (Syns pj ! k))
        \<and> SWt (Syns pj2 ! k)
            = (if rt (SWt (Syns pj ! k)) = 0 then rt (Wt (Syns pj ! k))
               else rt (SWt (Syns pj ! k))))"
proof -
  let ?W = "\<lambda>k. rt (Wt (Syns pj ! k))"
  let ?W1 = "\<lambda>k. rt (SWt (Syns pj ! k))"
  let ?prs = "map (recv_of rt pj) [0..<nr]"
  let ?pj1 = "pj1\<lparr>GScale := GScale pj\<rparr>"
  have w: "WriteRsLoop rt pj 0 nr = Some ?prs"
    using WriteRsLoop_spec[OF assms(1), of 0 nr rt] by simp
  have sl: "SaveLoad rt lwt nr nm pj pj1 = SetWtsRsLoop lwt ?prs ?pj1 False"
    by (simp add: SaveLoad_def Prjn_WriteWtsJSON_def Prjn_SetWts_def w)
  have a: "\<forall>pr \<in> set ?prs. length (Recv_Si pr) \<le> length (Recv_Wt1 pr)
          \<and> length (Recv_Si pr) \<le> length (Recv_Wt pr)
          \<and> (\<forall>i < length (Recv_Si pr). \<exists>k < length (Syns pj).
                SynIdx pj (Recv_Si pr ! i) (Recv_Ri pr) = Some (int k)
              \<and> Recv_Wt pr ! i = ?W k \<and> Recv_Wt1 pr ! i = ?W1 k)"
  proof
    fix pr assume "pr \<in> set ?prs"
    then obtain ri where ri: "ri < nr" "pr = recv_of rt pj ri" by auto
    show "length (Recv_Si pr) \<le> length (Recv_Wt1 pr)
          \<and> length (Recv_Si pr) \<le> length (Recv_Wt pr)
          \<and> (\<forall>i < length (Recv_Si pr). \<exists>k < length (Syns pj).
                SynIdx pj (Recv_Si pr ! i) (Recv_Ri pr) = Some (int k)
              \<and> Recv_Wt pr ! i = ?W k \<and> Recv_Wt1 pr ! i = ?W1 k)"
      unfolding ri(2) by (rule recv_of_entries[OF assms(1) ri(1)])
  qed
  have s: "same_send ?pj1 pj" using assms(2) by (simp add: same_send_def)
  have d: "\<forall>k. False \<longrightarrow> restored ?W ?W1 (Syns ?pj1) k" by simp
  from SetWtsRsLoop_spec[OF a s d, of lwt False] obtain pj2 where
    q0: "SetWtsRsLoop lwt ?prs ?pj1 False = Some (pj2, False) \<and> same_send pj2 pj
       \<and> (\<forall>k. False \<or> (\<exists>pr \<in> set ?prs. \<exists>i < length (Recv_Si pr).
                       SynIdx pj (Recv_Si pr ! i) (Recv_Ri pr) = Some (int k))
            \<longrightarrow> restored ?W ?W1 (Syns pj2) k)" ..
  note q1 = conjunct1[OF q0] and q2 = conjunct1[OF conjunct2[OF q0]]
    and q3 = conjunct2[OF conjunct2[OF q0]]
  have l: "length (Syns pj2) = length (Syns pj)" using q2 by (simp add: same_send_def)
  have r: "\<forall>k < length (Syns pj). restored ?W ?W1 (Syns pj2) k"
  proof (intro allI impI)
    fix k assume "k < length (Syns pj)"
    with assms(1) obtain ri ci where c: "ri < nr" "ci < RecvConN pj ! ri"
        "RecvSynIdx pj ! recv_entry pj ri ci = k"
      unfolding con_ok_def by blast
    from assms(1) c(1,2) have "SynIdx pj (int (RecvConIdx pj ! recv_entry pj ri ci)) (int ri)
        = Some (int (RecvSynIdx pj ! recv_entry pj ri ci))"
      unfolding con_ok_def by blast
    then have "SynIdx pj (Recv_Si (recv_of rt pj ri) ! ci) (Recv_Ri (recv_of rt pj ri)) = Some (int k)"
      using c(2,3) by (simp add: recv_of_def)
    moreover have "ci < length (Recv_Si (recv_of rt pj ri))" using c(2) by (simp add: recv_of_def)
    moreover have "recv_of rt pj ri \<in> set ?prs" using c(1) by simp
    ultimately have "\<exists>pr \<in> set ?prs. \<exists>i < length (Recv_Si pr).
                       SynIdx pj (Recv_Si pr ! i) (Recv_Ri pr) = Some (int k)"
      by blast
    then show "restored ?W ?W1 (Syns pj2) k" using q3 by blast
  qed
  have "\<forall>k < length (Syns pj).
          Wt (Syns pj2 ! k) = rt (Wt (Syns pj ! k))
        \<and> SWt (Syns pj2 ! k)
            = (if rt (SWt (Syns pj ! k)) = 0 then rt (Wt (Syns pj ! k))
               else rt (SWt (Syns pj ! k)))"
    using r by (simp add: restored_def)
  then show ?thesis using sl q1 l by simp
qed

text \<open>
  The fully connected projection of two senders and two receivers, saved and loaded into
  a projection of the same connectivity with other weights.
\<close>

theorem weights_round_trip_witness:
  "con_ok toy_prjn 2
   \<and> same_send (toy_prjn\<lparr>Syns := [syn0\<lparr>Wt := 9, SWt := 7\<rparr>, syn0, syn0, syn0]\<rparr>) toy_prjn
   \<and> (\<exists>pj2. SaveLoad toy_rt toy_lwt 2 ''Input''
               toy_prjn (toy_prjn\<lparr>Syns := [syn0\<lparr>Wt := 9, SWt := 7\<rparr>, syn0, syn0, syn0]\<rparr>)
             = Some (pj2, False)
           \<and> map Wt (Syns pj2) = [1, 2, 3, 4] \<and> map SWt (Syns pj2) = [1, 1, 1, 1])"
proof -
  let ?pj1 = "toy_prjn\<lparr>Syns := [syn0\<lparr>Wt := 9, SWt := 7\<rparr>, syn0, syn0, syn0]\<rparr>"
  have s: "same_send ?pj1 toy_prjn" by (simp add: same_send_def toy_prjn_def)
  from weights_round_trip[OF toy_con_ok s, of toy_rt toy_lwt "''Input''"] obtain pj2 where
    p0: "SaveLoad toy_rt toy_lwt 2 ''Input'' toy_prjn ?pj1 = Some (pj2, False)
     \<and> length (Syns pj2) = length (Syns toy_prjn)
     \<and> (\<forall>k < length (Syns toy_prjn).
          Wt (Syns pj2 ! k) = toy_rt (Wt (Syns toy_prjn ! k))
        \<and> SWt (Syns pj2 ! k)
            = (if toy_rt (SWt (Syns toy_prjn ! k)) = 0 then toy_rt (Wt (Syns toy_prjn ! k))
               else toy_rt (SWt (Syns toy_prjn ! k))))" ..
  note p1 = conjunct1[OF p0] and p2 = conjunct1[OF conjunct2[OF p0]]
    and p3 = conjunct2[OF conjunct2[OF p0]]
  have l: "length (Syns pj2) = 4" using p2 by (simp add: toy_prjn_def)
  have v: "\<forall>k < 4. Wt (Syns pj2 ! k) = Wt (Syns toy_prjn ! k) \<and> SWt (Syns pj2 ! k) = 1"
  proof (intro allI impI)
    fix k :: nat assume k: "k < 4"
    then have "k < length (Syns toy_prjn)" by (simp add: toy_prjn_def)
    from p3[rule_format, OF this] have
      a: "Wt (Syns pj2 ! k) = toy_rt (Wt (Syns toy_prjn ! k))"
      and b: "SWt (Syns pj2 ! k)
            = (if toy_rt (SWt (Syns toy_prjn ! k)) = 0 then toy_rt (Wt (Syns toy_prjn ! k))
               else toy_rt (SWt (Syns toy_prjn ! k)))"
      by simp_all
    from k have "k = 0 \<or> k = 1 \<or> k = 2 \<or> k = 3" by arith
    then have "SWt (Syns toy_prjn ! k) = 1" by (auto simp: toy_prjn_def syn0_def)
    then show "Wt (Syns pj2 ! k) = Wt (Syns toy_prjn ! k) \<and> SWt (Syns pj2 ! k) = 1"
      using a b by (simp add: toy_rt_def)
  qed
  have e: "Syns pj2 = [Syns pj2 ! 0, Syns pj2 ! 1, Syns pj2 ! 2, Syns pj2 ! 3]"
    using l by (intro nth_equalityI) (auto simp: nth_Cons' less_Suc_eq numeral_eq_Suc)
  have w: "map Wt (Syns pj2) = [1, 2, 3, 4]"
    by (subst e) (simp add: v[rule_format] toy_prjn_def syn0_def)
  have w1: "map SWt (Syns pj2) = [1, 1, 1, 1]"
    by (subst e) (simp add: v[rule_format])
  show ?thesis
    apply (intro conjI)
      apply (rule toy_con_ok)
     apply (rule s)
    apply (rule exI[of _ pj2])
    apply (intro conjI)
      apply (rule p1)
     apply (rule w)
    apply (rule w1)
    done
qed

text \<open>
  Claim C6 as stated fails.  A synapse with weight 1 and structural weight 0 is saved as
  it is, and has the structural weight 1 after the file is loaded back into the same
  projection: \<^verbatim>\<open>SetSynVal\<close> replaces a structural weight 0 by the weight when it sets
  the weight.
\<close>

theorem weights_round_trip_counterexample:
  "con_ok zero_swt_prjn 2
   \<and> SaveLoad toy_rt toy_lwt 2 ''Input'' zero_swt_prjn zero_swt_prjn = Some (toy_prjn, False)
   \<and> SWt (Syns zero_swt_prjn ! 0) = 0 \<and> SWt (Syns toy_prjn ! 0) = 1"
  by code_simp

end
